theory Spec2Isabelle
  imports Main
begin

section \<open>Data model\<close>

text \<open>
  Go's \<^verbatim>\<open>int\<close> is modelled as \<^typ>\<open>int\<close>: every number of the program is a row, a
  column, a cell index, a digit or a small count, far from the 64-bit bounds.

  Errors are values. \<^verbatim>\<open>BoardError\<close> carries a message; the two messages the board
  produces are told apart by constructor.
\<close>

datatype error =
    InvalidPosition int int
  | InvalidValue
  | ConstructionError
  | NilBoard

text \<open>The three calls of the \<^verbatim>\<open>CellObserver\<close> interface, with their arguments.\<close>

datatype event =
    SingleCandidate int int int
  | CellSolved int int int
  | CandidateEliminated int int int int

text \<open>
  The concrete constraint types of package \<^verbatim>\<open>constraints\<close>. Each embeds
  \<^verbatim>\<open>lib.BaseConstraint\<close> (fields \<^verbatim>\<open>Cells\<close>, \<^verbatim>\<open>Name\<close>, \<^verbatim>\<open>Board\<close>) and adds at most
  one field of its own (the row, column or box number, the cage's target sum). \<^verbatim>\<open>Name\<close>
  is only printed and is left out. \<^verbatim>\<open>Board\<close> is a pointer that is nil until
  \<^verbatim>\<open>SetBoard\<close> stores the board the constraint is registered on; the model keeps
  whether it has been assigned.
\<close>

datatype constraint_kind =
    RowConstraint int
  | ColumnConstraint int
  | BoxConstraint int
  | KillerCageConstraint int
  | RenbanConstraint
  | GermanWhispersConstraint

record Constraint =
  Cells :: "int list"
  Board_assigned :: bool
  kind :: constraint_kind

text \<open>
  An observer is a constraint or something outside the engine (the auto-solve listener,
  a test's recorder), named by a number. No observer of the repository writes to the
  board from a callback other than through the constraint methods below.
\<close>

datatype observer =
    ConstraintObserver Constraint
  | ExternalObserver nat

text \<open>
  \<^verbatim>\<open>type Cell struct { row, col, index, value int; board *Board;
  candidates map[int]bool; notifier *observer.CellNotifier }\<close>.
  The map only ever holds \<^verbatim>\<open>true\<close>, so it is the set of its keys. The notifier is its
  slice of observers. The back pointer \<^verbatim>\<open>board\<close> is never read by the engine.
\<close>

record Cell =
  row :: int
  col :: int
  index :: int
  cell_value :: int
  candidates :: "int set"
  notifier :: "observer list"

text \<open>
  \<^verbatim>\<open>type Board struct { board [81]*Cell; constraints []Constraint;
  observers []observer.CellObserver }\<close>.
  A slot of the array is a pointer and may be nil: \<^term>\<open>None\<close>. Only the slots 0..80
  exist; every access of the source is bounds-checked first. The field \<open>calls\<close> is
  the history of the calls made on observers, in order: what the recorders of the tests
  store.
\<close>

record Board =
  board :: "int \<Rightarrow> Cell option"
  constraints :: "Constraint list"
  observers :: "observer list"
  calls :: "(observer \<times> event) list"

section \<open>Cells\<close>

definition NewCell :: "int \<Rightarrow> int \<Rightarrow> Cell" where
  "NewCell r c =
     \<lparr>row = r, col = c, index = r * 9 + c, cell_value = 0,
      candidates = {1..9}, notifier = []\<rparr>"

definition Cell_GetValue :: "Cell \<Rightarrow> int" where
  "Cell_GetValue c = cell_value c"

text \<open>
  A method of a cell changes the cell and calls its notifier. The model returns the
  changed cell and the notifications it sends, in order; \<open>run_cell\<close> below writes the
  cell back to its slot and hands each notification to the cell's observers.
\<close>

definition Cell_SetValue :: "int \<Rightarrow> Cell \<Rightarrow> error option \<times> Cell \<times> event list" where
  "Cell_SetValue v c =
     (if v < 0 \<or> v > 9 then (Some InvalidValue, c, [])
      else if v \<noteq> 0 then
        (None, c\<lparr>cell_value := v, candidates := {}\<rparr>, [CellSolved (row c) (col c) v])
      else (None, c\<lparr>cell_value := v\<rparr>, []))"

definition Cell_GetCandidates :: "Cell \<Rightarrow> int set" where
  "Cell_GetCandidates c = (if cell_value c \<noteq> 0 then {} else candidates c)"

definition GetCandidatesAsSlice :: "int set \<Rightarrow> int list" where
  "GetCandidatesAsSlice cs = filter (\<lambda>i. i \<in> cs) [1..9]"

text \<open>
  \<^verbatim>\<open>RemoveCandidate\<close>. With one candidate left, the source reads
  \<^verbatim>\<open>GetCandidatesAsSlice(c.candidates)[0]\<close>; the slice is empty only when the last
  candidate is no digit 1..9, which no cell built by \<^verbatim>\<open>NewCell\<close> reaches (Go would
  panic there; the model sends nothing more).
\<close>

definition Cell_RemoveCandidate :: "int \<Rightarrow> Cell \<Rightarrow> Cell \<times> event list" where
  "Cell_RemoveCandidate candidate c =
     (if cell_value c = 0 \<and> candidate \<in> candidates c then
        let c' = c\<lparr>candidates := candidates c - {candidate}\<rparr>;
            remainingCount = int (card (candidates c'))
        in (c', CandidateEliminated (row c) (col c) candidate remainingCount #
                (if remainingCount = 1 then
                   (case GetCandidatesAsSlice (candidates c') of
                      [] \<Rightarrow> []
                    | lastCandidate # _ \<Rightarrow> [SingleCandidate (row c) (col c) lastCandidate])
                 else []))
      else (c, []))"

definition Cell_AddCandidate :: "int \<Rightarrow> Cell \<Rightarrow> Cell" where
  "Cell_AddCandidate candidate c =
     (if cell_value c = 0 \<and> candidate \<ge> 1 \<and> candidate \<le> 9 then
        (if candidate \<notin> candidates c then c\<lparr>candidates := insert candidate (candidates c)\<rparr>
         else c)
      else c)"

definition Cell_HasCandidate :: "Cell \<Rightarrow> int \<Rightarrow> bool" where
  "Cell_HasCandidate c candidate = (if cell_value c \<noteq> 0 then False else candidate \<in> candidates c)"

definition Cell_IsSolved :: "Cell \<Rightarrow> bool" where
  "Cell_IsSolved c = (cell_value c \<noteq> 0)"

definition Cell_CandidateCount :: "Cell \<Rightarrow> int" where
  "Cell_CandidateCount c = (if cell_value c \<noteq> 0 then 0 else int (card (candidates c)))"

definition Cell_AddObserver :: "observer \<Rightarrow> Cell \<Rightarrow> Cell" where
  "Cell_AddObserver obs c = c\<lparr>notifier := notifier c @ [obs]\<rparr>"

section \<open>Observers\<close>

text \<open>
  \<^verbatim>\<open>BaseConstraint\<close> implements the observer interface for every constraint type:
  \<^verbatim>\<open>func (bc *BaseConstraint) OnCellSolved(row, col, value int)
  { bc.PropagateValueChange(row, col, value) }\<close>.
  The receiver \<^verbatim>\<open>bc\<close> has the static type \<^verbatim>\<open>*BaseConstraint\<close>, and Go selects a
  method by the static type of the receiver: the call runs
  \<^verbatim>\<open>(*BaseConstraint).PropagateValueChange\<close>, whose body only writes a debug line. The
  methods of the same name that \<^verbatim>\<open>RowConstraint\<close>, \<^verbatim>\<open>KillerCageConstraint\<close> and the
  others declare are reached only by a call on a value of those types (or on the
  \<^verbatim>\<open>Constraint\<close> interface); no concrete type declares \<^verbatim>\<open>OnCellSolved\<close> itself.
  The two other callbacks of \<^verbatim>\<open>BaseConstraint\<close> have empty bodies.
\<close>

definition BaseConstraint_PropagateValueChange ::
    "Constraint \<Rightarrow> int \<Rightarrow> int \<Rightarrow> int \<Rightarrow> Board \<Rightarrow> Board" where
  "BaseConstraint_PropagateValueChange bc r c v b = b"

definition BaseConstraint_OnCellSolved ::
    "Constraint \<Rightarrow> int \<Rightarrow> int \<Rightarrow> int \<Rightarrow> Board \<Rightarrow> Board" where
  "BaseConstraint_OnCellSolved bc r c v b = BaseConstraint_PropagateValueChange bc r c v b"

definition BaseConstraint_OnSingleCandidate ::
    "Constraint \<Rightarrow> int \<Rightarrow> int \<Rightarrow> int \<Rightarrow> Board \<Rightarrow> Board" where
  "BaseConstraint_OnSingleCandidate bc r c candidate b = b"

definition BaseConstraint_OnCandidateEliminated ::
    "Constraint \<Rightarrow> int \<Rightarrow> int \<Rightarrow> int \<Rightarrow> int \<Rightarrow> Board \<Rightarrow> Board" where
  "BaseConstraint_OnCandidateEliminated bc r c candidate remainingCount b = b"

text \<open>One call on one observer: it is recorded, then the observer's method runs.\<close>

fun handle :: "observer \<Rightarrow> event \<Rightarrow> Board \<Rightarrow> Board" where
  "handle (ConstraintObserver k) (CellSolved r c v) b = BaseConstraint_OnCellSolved k r c v b"
| "handle (ConstraintObserver k) (SingleCandidate r c d) b =
     BaseConstraint_OnSingleCandidate k r c d b"
| "handle (ConstraintObserver k) (CandidateEliminated r c d n) b =
     BaseConstraint_OnCandidateEliminated k r c d n b"
| "handle (ExternalObserver n) e b = b"

definition call_observer :: "event \<Rightarrow> observer \<Rightarrow> Board \<Rightarrow> Board" where
  "call_observer e obs b = handle obs e (b\<lparr>calls := calls b @ [(obs, e)]\<rparr>)"

text \<open>
  \<^verbatim>\<open>NotifySingleCandidate\<close>, \<^verbatim>\<open>NotifyCellSolved\<close> and \<^verbatim>\<open>NotifyCandidateEliminated\<close>:
  each is \<^verbatim>\<open>for _, observer := range cn.observers\<close> around the matching call.
\<close>

definition Notify :: "observer list \<Rightarrow> event \<Rightarrow> Board \<Rightarrow> Board" where
  "Notify obss e b = fold (call_observer e) obss b"

definition run_cell :: "int \<Rightarrow> Cell \<times> event list \<Rightarrow> Board \<Rightarrow> Board" where
  "run_cell i r b =
     fold (Notify (notifier (fst r))) (snd r) (b\<lparr>board := (board b)(i \<mapsto> fst r)\<rparr>)"

section \<open>The board\<close>

text \<open>
  \<^verbatim>\<open>NewBoard\<close> stores \<^verbatim>\<open>NewCell(row, col, b)\<close> at \<^verbatim>\<open>row*9+col\<close> for all rows and
  columns 0..8: slot \<open>i\<close> holds the cell of row \<open>i div 9\<close> and column \<open>i mod 9\<close>.
\<close>

definition NewBoard :: Board where
  "NewBoard =
     \<lparr>board = (\<lambda>i. if 0 \<le> i \<and> i \<le> 80 then Some (NewCell (i div 9) (i mod 9)) else None),
      constraints = [], observers = [], calls = []\<rparr>"

definition Board_Set :: "int \<Rightarrow> int \<Rightarrow> int \<Rightarrow> Board \<Rightarrow> error option \<times> Board" where
  "Board_Set r c v b =
     (if r < 0 \<or> r > 8 \<or> c < 0 \<or> c > 8 then (Some (InvalidPosition r c), b)
      else
        let cell = (case board b (r * 9 + c) of None \<Rightarrow> NewCell r c | Some x \<Rightarrow> x);
            res = Cell_SetValue v cell
        in (fst res, run_cell (r * 9 + c) (snd res) b))"

definition Board_Get :: "Board \<Rightarrow> int \<Rightarrow> int \<Rightarrow> int" where
  "Board_Get b r c =
     (if r < 0 \<or> r > 8 \<or> c < 0 \<or> c > 8 then 0
      else case board b (r * 9 + c) of None \<Rightarrow> 0 | Some cell \<Rightarrow> Cell_GetValue cell)"

definition Board_GetCell :: "Board \<Rightarrow> int \<Rightarrow> Cell option" where
  "Board_GetCell b i = (if i < 0 \<or> i > 80 then None else board b i)"

definition Board_GetCellAt :: "Board \<Rightarrow> int \<Rightarrow> int \<Rightarrow> Cell option" where
  "Board_GetCellAt b r c =
     (if r < 0 \<or> r > 8 \<or> c < 0 \<or> c > 8 then None else board b (r * 9 + c))"

text \<open>
  \<^verbatim>\<open>AddConstraint\<close>: the constraint is appended, \<^verbatim>\<open>SetBoard\<close> assigns its board (every
  constraint type has the method, through \<^verbatim>\<open>BaseConstraint\<close>), and it is added to the
  observers of each cell of its scope.
\<close>

definition Board_AddConstraint :: "Constraint \<Rightarrow> Board \<Rightarrow> Board" where
  "Board_AddConstraint c b =
     (let c' = c\<lparr>Board_assigned := True\<rparr>
      in fold (\<lambda>cellIndex bd.
                 if cellIndex \<ge> 0 \<and> cellIndex \<le> 80 then
                   (case board bd cellIndex of
                      None \<Rightarrow> bd
                    | Some cell \<Rightarrow>
                        bd\<lparr>board := (board bd)(cellIndex \<mapsto>
                              Cell_AddObserver (ConstraintObserver c') cell)\<rparr>)
                 else bd)
           (Cells c') (b\<lparr>constraints := constraints b @ [c']\<rparr>))"

section \<open>Constraints\<close>

text \<open>
  The constructors. Every division of the program has a non-negative dividend (a cell
  index 0..80 or a box number 0..8, checked here), where Go's truncating \<^verbatim>\<open>/\<close> and
  \<^verbatim>\<open>%\<close> agree with \<open>div\<close> and \<open>mod\<close>.
\<close>

definition NewRowConstraint :: "int \<Rightarrow> error + Constraint" where
  "NewRowConstraint r =
     (if r < 0 \<or> r > 8 then Inl ConstructionError
      else Inr \<lparr>Cells = map (\<lambda>c. r * 9 + c) [0..8], Board_assigned = False,
                kind = RowConstraint r\<rparr>)"

definition NewColumnConstraint :: "int \<Rightarrow> error + Constraint" where
  "NewColumnConstraint c =
     (if c < 0 \<or> c > 8 then Inl ConstructionError
      else Inr \<lparr>Cells = map (\<lambda>r. r * 9 + c) [0..8], Board_assigned = False,
                kind = ColumnConstraint c\<rparr>)"

definition NewBoxConstraint :: "int \<Rightarrow> error + Constraint" where
  "NewBoxConstraint box =
     (if box < 0 \<or> box > 8 then Inl ConstructionError
      else
        let boxRow = (box div 3) * 3; boxCol = (box mod 3) * 3
        in Inr \<lparr>Cells = concat (map (\<lambda>r. map (\<lambda>c. (boxRow + r) * 9 + (boxCol + c)) [0..2]) [0..2]),
                  Board_assigned = False, kind = BoxConstraint box\<rparr>)"

definition NewKillerCageConstraint :: "int list \<Rightarrow> int \<Rightarrow> error + Constraint" where
  "NewKillerCageConstraint cells targetSum =
     (if cells = [] then Inl ConstructionError
      else if \<exists>cell \<in> set cells. cell < 0 \<or> cell > 80 then Inl ConstructionError
      else if targetSum < 1 \<or> targetSum > 45 then Inl ConstructionError
      else Inr \<lparr>Cells = cells, Board_assigned = False, kind = KillerCageConstraint targetSum\<rparr>)"

definition NewRenbanConstraint :: "int list \<Rightarrow> error + Constraint" where
  "NewRenbanConstraint cells =
     (if cells = [] then Inl ConstructionError
      else if \<exists>cell \<in> set cells. cell < 0 \<or> cell > 80 then Inl ConstructionError
      else Inr \<lparr>Cells = cells, Board_assigned = False, kind = RenbanConstraint\<rparr>)"

definition NewGermanWhispersConstraint :: "int list \<Rightarrow> error + Constraint" where
  "NewGermanWhispersConstraint cells =
     (if length cells < 2 then Inl ConstructionError
      else if \<exists>cell \<in> set cells. cell < 0 \<or> cell > 80 then Inl ConstructionError
      else Inr \<lparr>Cells = cells, Board_assigned = False, kind = GermanWhispersConstraint\<rparr>)"

text \<open>
  The constraints a program can hold: the results of the constructors, before or after
  \<^verbatim>\<open>SetBoard\<close>. The fields a constructor fills are not written again.
\<close>

inductive constructed :: "Constraint \<Rightarrow> bool" where
  "NewRowConstraint r = Inr k \<Longrightarrow> constructed k"
| "NewColumnConstraint c = Inr k \<Longrightarrow> constructed k"
| "NewBoxConstraint box = Inr k \<Longrightarrow> constructed k"
| "NewKillerCageConstraint cells targetSum = Inr k \<Longrightarrow> constructed k"
| "NewRenbanConstraint cells = Inr k \<Longrightarrow> constructed k"
| "NewGermanWhispersConstraint cells = Inr k \<Longrightarrow> constructed k"
| "constructed k \<Longrightarrow> constructed (k\<lparr>Board_assigned := True\<rparr>)"

fun HasUniqueNonZeros_seen :: "int set \<Rightarrow> int list \<Rightarrow> bool" where
  "HasUniqueNonZeros_seen seen [] = True"
| "HasUniqueNonZeros_seen seen (v # vs) =
     (if v = 0 then HasUniqueNonZeros_seen seen vs
      else if v < 1 \<or> v > 9 then False
      else if v \<in> seen then False
      else HasUniqueNonZeros_seen (insert v seen) vs)"

definition HasUniqueNonZeros :: "int list \<Rightarrow> bool" where
  "HasUniqueNonZeros vs = HasUniqueNonZeros_seen {} vs"

text \<open>
  \<^verbatim>\<open>GetRow\<close>, \<^verbatim>\<open>GetColumn\<close> and \<^verbatim>\<open>GetBox\<close> index the array without a check; their
  callers pass the number a constructor has checked to be 0..8.
\<close>

definition slot_value :: "Board \<Rightarrow> int \<Rightarrow> int" where
  "slot_value b i = (case board b i of None \<Rightarrow> 0 | Some cell \<Rightarrow> Cell_GetValue cell)"

definition Board_GetRow :: "Board \<Rightarrow> int \<Rightarrow> int list" where
  "Board_GetRow b r = map (\<lambda>i. slot_value b (r * 9 + i)) [0..8]"

definition Board_GetColumn :: "Board \<Rightarrow> int \<Rightarrow> int list" where
  "Board_GetColumn b c = map (\<lambda>r. slot_value b (r * 9 + c)) [0..8]"

definition Board_GetBox :: "Board \<Rightarrow> int \<Rightarrow> int list" where
  "Board_GetBox b box =
     (let boxRow = (box div 3) * 3; boxCol = (box mod 3) * 3
      in concat (map (\<lambda>r. map (\<lambda>c. slot_value b ((boxRow + r) * 9 + (boxCol + c))) [0..2]) [0..2]))"

text \<open>The values a cage or line reads: \<^verbatim>\<open>board.Get(cellIdx/9, cellIdx%9)\<close> per cell.\<close>

definition scope_values :: "Board \<Rightarrow> int list \<Rightarrow> int list" where
  "scope_values b cells = map (\<lambda>cellIdx. Board_Get b (cellIdx div 9) (cellIdx mod 9)) cells"

fun consecutive :: "int list \<Rightarrow> bool" where
  "consecutive (x # y # zs) = (y = x + 1 \<and> consecutive (y # zs))"
| "consecutive zs = True"

fun whispers_ok :: "int list \<Rightarrow> bool" where
  "whispers_ok (val1 # val2 # vs) =
     (if val1 = 0 \<or> val2 = 0 then whispers_ok (val2 # vs)
      else if \<bar>val1 - val2\<bar> < 5 then False
      else whispers_ok (val2 # vs))"
| "whispers_ok vs = True"

text \<open>
  \<^verbatim>\<open>IsValid(board)\<close> through the \<^verbatim>\<open>Constraint\<close> interface; a nil board is an error.
  The Renban check sorts a copy of the values ascending (an exchange sort in the source)
  and compares neighbours.
\<close>

definition Constraint_IsValid :: "Constraint \<Rightarrow> Board option \<Rightarrow> error + bool" where
  "Constraint_IsValid k bo =
     (case bo of
        None \<Rightarrow> Inl NilBoard
      | Some b \<Rightarrow>
          (case kind k of
             RowConstraint r \<Rightarrow> Inr (HasUniqueNonZeros (Board_GetRow b r))
           | ColumnConstraint c \<Rightarrow> Inr (HasUniqueNonZeros (Board_GetColumn b c))
           | BoxConstraint box \<Rightarrow> Inr (HasUniqueNonZeros (Board_GetBox b box))
           | KillerCageConstraint targetSum \<Rightarrow>
               (let values = scope_values b (Cells k);
                    total = sum_list (filter (\<lambda>v. v \<noteq> 0) values);
                    hasEmpty = (0 \<in> set values)
                in if \<not> HasUniqueNonZeros values then Inr False
                   else if \<not> hasEmpty then Inr (total = targetSum)
                   else Inr (total \<le> targetSum))
           | RenbanConstraint \<Rightarrow>
               (let values = scope_values b (Cells k)
                in if 0 \<in> set values then Inr (HasUniqueNonZeros values)
                   else if \<not> HasUniqueNonZeros values then Inr False
                   else Inr (consecutive (sort values)))
           | GermanWhispersConstraint \<Rightarrow> Inr (whispers_ok (scope_values b (Cells k)))))"

definition Constraint_RequiresUniqueness :: "Constraint \<Rightarrow> bool" where
  "Constraint_RequiresUniqueness k =
     (case kind k of GermanWhispersConstraint \<Rightarrow> False | _ \<Rightarrow> True)"

section \<open>Propagation methods of the constraint types\<close>

text \<open>
  A call of \<^verbatim>\<open>RemoveCandidate\<close> on the cell that a lookup returned: the cell is the
  one in slot \<open>i\<close>. The lookups are bounds-checked by the callers and a nil cell is
  skipped by them.
\<close>

definition RemoveCandidate_at :: "int \<Rightarrow> int \<Rightarrow> Board \<Rightarrow> Board" where
  "RemoveCandidate_at i candidate b =
     (case board b i of
        None \<Rightarrow> b
      | Some cell \<Rightarrow> run_cell i (Cell_RemoveCandidate candidate cell) b)"

text \<open>
  \<^verbatim>\<open>otherCell := Board.GetCellAt(r, c);
  if otherCell != nil && !otherCell.IsSolved() { otherCell.RemoveCandidate(value) }\<close>
\<close>

definition remove_if_unsolved :: "int \<Rightarrow> int \<Rightarrow> int \<Rightarrow> Board \<Rightarrow> Board" where
  "remove_if_unsolved r c candidate b =
     (case Board_GetCellAt b r c of
        None \<Rightarrow> b
      | Some otherCell \<Rightarrow>
          if \<not> Cell_IsSolved otherCell then RemoveCandidate_at (r * 9 + c) candidate b else b)"

text \<open>
  \<^verbatim>\<open>RowConstraint.PropagateValueChange\<close>; the methods of \<^verbatim>\<open>ColumnConstraint\<close> and
  \<^verbatim>\<open>BoxConstraint\<close> have the same body. The board written is the one \<^verbatim>\<open>SetBoard\<close>
  stored.
\<close>

definition Unique_PropagateValueChange ::
    "Constraint \<Rightarrow> int \<Rightarrow> int \<Rightarrow> int \<Rightarrow> Board \<Rightarrow> Board" where
  "Unique_PropagateValueChange k r c v b =
     (if v = 0 then b
      else if \<not> Board_assigned k then b
      else fold (\<lambda>cellIndex bd.
                   let otherRow = cellIndex div 9; otherCol = cellIndex mod 9
                   in if otherRow \<noteq> r \<or> otherCol \<noteq> c
                      then remove_if_unsolved otherRow otherCol v bd else bd)
             (Cells k) b)"

text \<open>\<^verbatim>\<open>KillerCageConstraint.PropagateValueChange\<close>.\<close>

definition cage_prune :: "int \<Rightarrow> int \<Rightarrow> int \<Rightarrow> int \<Rightarrow> Board \<Rightarrow> Board" where
  "cage_prune remainingCells remainingSum idx candidate b =
     (if remainingCells = 1 then
        (if candidate \<noteq> remainingSum then RemoveCandidate_at idx candidate b else b)
      else
        let minPossibleSum = remainingCells - 1; maxPossibleSum = (remainingCells - 1) * 9
        in if remainingSum - candidate < minPossibleSum \<or> remainingSum - candidate > maxPossibleSum
           then RemoveCandidate_at idx candidate b else b)"

definition KillerCage_PropagateValueChange ::
    "Constraint \<Rightarrow> int \<Rightarrow> int \<Rightarrow> int \<Rightarrow> int \<Rightarrow> Board \<Rightarrow> Board" where
  "KillerCage_PropagateValueChange k targetSum r c v b =
     (if v = 0 then b
      else if \<not> Board_assigned k then b
      else
        let cells = Cells k; cellIndex = r * 9 + c;
            b1 = fold (\<lambda>otherIndex bd.
                         if otherIndex \<noteq> cellIndex
                         then remove_if_unsolved (otherIndex div 9) (otherIndex mod 9) v bd
                         else bd) cells b;
            filled = filter (\<lambda>idx. case Board_GetCellAt b1 (idx div 9) (idx mod 9) of
                                       None \<Rightarrow> False
                                     | Some otherCell \<Rightarrow> Cell_GetValue otherCell \<noteq> 0) cells;
            currentSum = sum_list (map (\<lambda>idx. slot_value b1 ((idx div 9) * 9 + idx mod 9)) filled);
            filledCount = int (length filled);
            remainingCells = int (length cells) - filledCount;
            remainingSum = targetSum - currentSum
        in fold (\<lambda>idx bd.
                   case Board_GetCellAt bd (idx div 9) (idx mod 9) of
                     None \<Rightarrow> bd
                   | Some otherCell \<Rightarrow>
                       if Cell_GetValue otherCell = 0
                       then fold (cage_prune remainingCells remainingSum
                                    ((idx div 9) * 9 + idx mod 9)) [1..9] bd
                       else bd)
             cells b1)"

text \<open>
  \<^verbatim>\<open>RenbanConstraint.PropagateValueChange\<close>: the value leaves the other unsolved cells
  of the line; then, with the least and greatest value among the solved cells of the
  line and the value set, every candidate of an unsolved cell whose range with them is
  longer than the line is removed.
\<close>

definition renban_prune :: "int \<Rightarrow> int \<Rightarrow> int \<Rightarrow> int \<Rightarrow> int \<Rightarrow> Board \<Rightarrow> Board" where
  "renban_prune minVal maxVal totalCells idx candidate b =
     (let newMin = (if candidate < minVal then candidate else minVal);
          newMax = (if candidate > maxVal then candidate else maxVal);
          rangeSize = newMax - newMin + 1
      in if rangeSize > totalCells then RemoveCandidate_at idx candidate b else b)"

definition Renban_PropagateValueChange ::
    "Constraint \<Rightarrow> int \<Rightarrow> int \<Rightarrow> int \<Rightarrow> Board \<Rightarrow> Board" where
  "Renban_PropagateValueChange k r c v b =
     (if v = 0 then b
      else if \<not> Board_assigned k then b
      else
        let cells = Cells k; cellIndex = r * 9 + c;
            b1 = fold (\<lambda>otherIndex bd.
                         if otherIndex \<noteq> cellIndex
                         then remove_if_unsolved (otherIndex div 9) (otherIndex mod 9) v bd
                         else bd) cells b;
            currentValues =
              map (\<lambda>idx. slot_value b1 ((idx div 9) * 9 + idx mod 9))
                (filter (\<lambda>idx. case Board_GetCellAt b1 (idx div 9) (idx mod 9) of
                                  None \<Rightarrow> False
                                | Some otherCell \<Rightarrow> Cell_GetValue otherCell \<noteq> 0) cells);
            minVal = fold (\<lambda>val m. if val < m then val else m) currentValues v;
            maxVal = fold (\<lambda>val m. if val > m then val else m) currentValues v;
            totalCells = int (length cells)
        in fold (\<lambda>idx bd.
                   case Board_GetCellAt bd (idx div 9) (idx mod 9) of
                     None \<Rightarrow> bd
                   | Some otherCell \<Rightarrow>
                       if Cell_GetValue otherCell = 0
                       then fold (renban_prune minVal maxVal totalCells
                                    ((idx div 9) * 9 + idx mod 9)) [1..9] bd
                       else bd)
             cells b1)"

text \<open>
  \<^verbatim>\<open>GermanWhispersConstraint.PropagateValueChange\<close>: the first position of the cell in
  the line is looked up; in the cell before it and the cell after it, when unsolved,
  every candidate 1..9 at a distance below 5 from the value is removed.
\<close>

fun position_of :: "int \<Rightarrow> int list \<Rightarrow> nat \<Rightarrow> nat option" where
  "position_of x [] i = None"
| "position_of x (y # ys) i = (if y = x then Some i else position_of x ys (Suc i))"

definition whispers_prune :: "int \<Rightarrow> int \<Rightarrow> int \<Rightarrow> Board \<Rightarrow> Board" where
  "whispers_prune v idx candidate b =
     (let diff = candidate - v;
          diff = (if diff < 0 then - diff else diff)
      in if diff < 5 then RemoveCandidate_at idx candidate b else b)"

definition whispers_neighbour :: "int \<Rightarrow> int \<Rightarrow> Board \<Rightarrow> Board" where
  "whispers_neighbour v idx b =
     (case Board_GetCellAt b (idx div 9) (idx mod 9) of
        None \<Rightarrow> b
      | Some cell \<Rightarrow>
          if \<not> Cell_IsSolved cell
          then fold (whispers_prune v ((idx div 9) * 9 + idx mod 9)) [1..9] b
          else b)"

definition GermanWhispers_PropagateValueChange ::
    "Constraint \<Rightarrow> int \<Rightarrow> int \<Rightarrow> int \<Rightarrow> Board \<Rightarrow> Board" where
  "GermanWhispers_PropagateValueChange k r c v b =
     (if v = 0 then b
      else if \<not> Board_assigned k then b
      else
        let cells = Cells k; cellIndex = r * 9 + c
        in case position_of cellIndex cells 0 of
             None \<Rightarrow> b
           | Some pos \<Rightarrow>
               let b1 = (if pos > 0 then whispers_neighbour v (cells ! (pos - 1)) b else b)
               in if int pos < int (length cells) - 1
                  then whispers_neighbour v (cells ! (pos + 1)) b1 else b1)"

text \<open>
  \<^verbatim>\<open>PropagateValueChange\<close> called on a constraint value or through the \<^verbatim>\<open>Constraint\<close>
  interface reaches the method of the concrete type.
\<close>

definition Constraint_PropagateValueChange ::
    "Constraint \<Rightarrow> int \<Rightarrow> int \<Rightarrow> int \<Rightarrow> Board \<Rightarrow> Board" where
  "Constraint_PropagateValueChange k r c v b =
     (case kind k of
        RowConstraint _ \<Rightarrow> Unique_PropagateValueChange k r c v b
      | ColumnConstraint _ \<Rightarrow> Unique_PropagateValueChange k r c v b
      | BoxConstraint _ \<Rightarrow> Unique_PropagateValueChange k r c v b
      | KillerCageConstraint targetSum \<Rightarrow> KillerCage_PropagateValueChange k targetSum r c v b
      | RenbanConstraint \<Rightarrow> Renban_PropagateValueChange k r c v b
      | GermanWhispersConstraint \<Rightarrow> GermanWhispers_PropagateValueChange k r c v b)"

section \<open>The subset-elimination engine\<close>

text \<open>
  The deduction passes carry the flag \<^verbatim>\<open>changed\<close> with the board. Their one way of
  writing is
  \<^verbatim>\<open>if cell.HasCandidate(candidate) { cell.RemoveCandidate(candidate); changed = true }\<close>.
  A cell pointer is modelled by its slot; the pointers of a board are pairwise
  different, so comparing pointers is comparing slots.

  Go does not fix the order of \<^verbatim>\<open>range\<close> over a map. The model visits the keys in
  ascending order (the order the specification recommends). In the subset engine, the
  X-Wing pass and the Swordfish pass the order only decides in which order the
  callbacks of one step are recorded.
\<close>

definition eliminate :: "int \<Rightarrow> int \<Rightarrow> bool \<times> Board \<Rightarrow> bool \<times> Board" where
  "eliminate i candidate s =
     (case board (snd s) i of
        None \<Rightarrow> s
      | Some cell \<Rightarrow>
          if Cell_HasCandidate cell candidate
          then (True, RemoveCandidate_at i candidate (snd s)) else s)"

definition unsolved_cells :: "Board \<Rightarrow> int list \<Rightarrow> int list" where
  "unsolved_cells b cellIndices =
     filter (\<lambda>idx. case Board_GetCell b idx of
                      None \<Rightarrow> False
                    | Some cell \<Rightarrow> \<not> Cell_IsSolved cell) cellIndices"

definition cell_candidates :: "Board \<Rightarrow> int \<Rightarrow> int set" where
  "cell_candidates b i = (case board b i of None \<Rightarrow> {} | Some cell \<Rightarrow> Cell_GetCandidates cell)"

text \<open>
  \<^verbatim>\<open>GenerateCombinations(n, k)\<close>: the recursive closure \<^verbatim>\<open>generate(start, depth)\<close>
  appends the combination when \<^verbatim>\<open>depth == k\<close>; the model counts the \<open>k - depth\<close>
  places still to fill.
\<close>

fun generate :: "nat \<Rightarrow> nat \<Rightarrow> nat \<Rightarrow> nat list \<Rightarrow> nat list list" where
  "generate n 0 start combination = [combination]"
| "generate n (Suc todo) start combination =
     concat (map (\<lambda>i. generate n todo (Suc i) (combination @ [i])) [start..<n])"

definition GenerateCombinations :: "int \<Rightarrow> int \<Rightarrow> nat list list" where
  "GenerateCombinations n k = (if k > n \<or> k < 0 then [] else generate (nat n) (nat k) 0 [])"

definition naked_combo ::
    "int list \<Rightarrow> int \<Rightarrow> nat list \<Rightarrow> bool \<times> Board \<Rightarrow> bool \<times> Board" where
  "naked_combo unsolvedCells subsetSize combo s =
     (let subsetCells = map (\<lambda>idx. unsolvedCells ! idx) combo;
          candidateUnion = (\<Union>cell \<in> set subsetCells. cell_candidates (snd s) cell)
      in if int (card candidateUnion) = subsetSize then
           fold (\<lambda>cell. if cell \<notin> set subsetCells
                         then fold (eliminate cell) (sorted_list_of_set candidateUnion)
                         else id)
             unsolvedCells s
         else s)"

definition ApplyNakedSubsets :: "Board \<Rightarrow> int list \<Rightarrow> int \<Rightarrow> bool \<times> Board" where
  "ApplyNakedSubsets b cellIndices maxSubsetSize =
     (if cellIndices = [] then (False, b)
      else
        let unsolvedCells = unsolved_cells b cellIndices
        in if length unsolvedCells < 2 then (False, b)
           else
             let maxSize = (if int (length unsolvedCells) < maxSubsetSize
                            then int (length unsolvedCells) else maxSubsetSize)
             in fold (\<lambda>subsetSize.
                        fold (naked_combo unsolvedCells subsetSize)
                          (GenerateCombinations (int (length unsolvedCells)) subsetSize))
                  [2..maxSize] (False, b))"

definition hidden_combo ::
    "(int \<Rightarrow> int list) \<Rightarrow> int list \<Rightarrow> int \<Rightarrow> nat list \<Rightarrow> bool \<times> Board \<Rightarrow> bool \<times> Board" where
  "hidden_combo candidateLocations activeCandidates subsetSize combo s =
     (let subsetCandidates = map (\<lambda>idx. activeCandidates ! idx) combo;
          cellUnion = (\<Union>candidate \<in> set subsetCandidates. set (candidateLocations candidate))
      in if int (card cellUnion) = subsetSize then
           fold (\<lambda>cell.
                   fold (\<lambda>candidate. if candidate \<notin> set subsetCandidates
                                      then eliminate cell candidate else id) [1..9])
             (sorted_list_of_set cellUnion) s
         else s)"

definition ApplyHiddenSubsets :: "Board \<Rightarrow> int list \<Rightarrow> int \<Rightarrow> bool \<times> Board" where
  "ApplyHiddenSubsets b cellIndices maxSubsetSize =
     (if cellIndices = [] then (False, b)
      else
        let unsolvedCells = unsolved_cells b cellIndices
        in if length unsolvedCells < 2 then (False, b)
           else
             let candidateLocations =
                   (\<lambda>candidate. filter (\<lambda>cell. candidate \<in> cell_candidates b cell) unsolvedCells);
                 activeCandidates =
                   filter (\<lambda>candidate. length (candidateLocations candidate) \<ge> 2) [1..9]
             in if length activeCandidates < 2 then (False, b)
                else
                  let maxSize = (if int (length activeCandidates) < maxSubsetSize
                                 then int (length activeCandidates) else maxSubsetSize)
                  in fold (\<lambda>subsetSize.
                             fold (hidden_combo candidateLocations activeCandidates subsetSize)
                               (GenerateCombinations (int (length activeCandidates)) subsetSize))
                       [2..maxSize] (False, b))"

text \<open>
  \<^verbatim>\<open>ApplyPencilMarkConstraints\<close> of a constraint: the naked pass, then the hidden pass
  (both always run), with cap 4 for rows, columns and boxes, and the smaller of 4 and
  the scope's length for cages and Renban lines. German Whispers returns false.
\<close>

definition subset_pass :: "Board \<Rightarrow> int list \<Rightarrow> int \<Rightarrow> bool \<times> Board" where
  "subset_pass b cells maxSize =
     (let n = ApplyNakedSubsets b cells maxSize;
          h = ApplyHiddenSubsets (snd n) cells maxSize
      in (fst h \<or> fst n, snd h))"

definition Constraint_ApplyPencilMarkConstraints :: "Constraint \<Rightarrow> Board \<Rightarrow> bool \<times> Board" where
  "Constraint_ApplyPencilMarkConstraints k b =
     (case kind k of
        RowConstraint _ \<Rightarrow> subset_pass b (Cells k) 4
      | ColumnConstraint _ \<Rightarrow> subset_pass b (Cells k) 4
      | BoxConstraint _ \<Rightarrow> subset_pass b (Cells k) 4
      | KillerCageConstraint _ \<Rightarrow>
          subset_pass b (Cells k) (if int (length (Cells k)) < 4 then int (length (Cells k)) else 4)
      | RenbanConstraint \<Rightarrow>
          subset_pass b (Cells k) (if int (length (Cells k)) < 4 then int (length (Cells k)) else 4)
      | GermanWhispersConstraint \<Rightarrow> (False, b))"

definition Board_ApplyPencilMarkConstraints :: "Board \<Rightarrow> bool \<times> Board" where
  "Board_ApplyPencilMarkConstraints b =
     fold (\<lambda>constraint s.
             if Constraint_RequiresUniqueness constraint then
               (let r = Constraint_ApplyPencilMarkConstraints constraint (snd s)
                in (if fst r then True else fst s, snd r))
             else s)
       (constraints b) (False, b)"

text \<open>
  \<^verbatim>\<open>ApplyPencilMarkConstraintsUntilStable\<close> is a \<^verbatim>\<open>for { ... }\<close> loop with one exit.
  Not returning is the value \<^term>\<open>None\<close>.
\<close>

partial_function (option) until_stable :: "int \<Rightarrow> Board \<Rightarrow> (int \<times> Board) option" where
  "until_stable iterations b =
     (let r = Board_ApplyPencilMarkConstraints b
      in if \<not> fst r then Some (iterations + 1, snd r)
         else until_stable (iterations + 1) (snd r))"

definition Board_ApplyPencilMarkConstraintsUntilStable :: "Board \<Rightarrow> (int \<times> Board) option" where
  "Board_ApplyPencilMarkConstraintsUntilStable b = until_stable 0 b"

section \<open>The cross-line engine\<close>

definition line_cell :: "bool \<Rightarrow> int \<Rightarrow> int \<Rightarrow> int \<times> int" where
  "line_cell rowBased line pos = (if rowBased then (line, pos) else (pos, line))"

definition line_positions :: "Board \<Rightarrow> bool \<Rightarrow> int \<Rightarrow> int \<Rightarrow> int list" where
  "line_positions b rowBased candidate line =
     filter (\<lambda>pos. case Board_GetCellAt b (fst (line_cell rowBased line pos))
                                            (snd (line_cell rowBased line pos)) of
                      None \<Rightarrow> False
                    | Some cell \<Rightarrow> \<not> Cell_IsSolved cell \<and> Cell_HasCandidate cell candidate)
       [0..8]"

definition line_eliminate :: "bool \<Rightarrow> int \<Rightarrow> int \<Rightarrow> int \<Rightarrow> bool \<times> Board \<Rightarrow> bool \<times> Board" where
  "line_eliminate rowBased candidate otherLine pos s =
     (let rc = line_cell rowBased otherLine pos
      in case Board_GetCellAt (snd s) (fst rc) (snd rc) of
           None \<Rightarrow> s
         | Some cell \<Rightarrow>
             if \<not> Cell_IsSolved cell \<and> Cell_HasCandidate cell candidate
             then (True, RemoveCandidate_at (fst rc * 9 + snd rc) candidate (snd s)) else s)"

text \<open>The pairs \<^verbatim>\<open>(lines[i], lines[j])\<close> with \<^verbatim>\<open>i < j\<close>, in the order of the two loops.\<close>

fun pairs_of :: "'a list \<Rightarrow> ('a \<times> 'a) list" where
  "pairs_of [] = []"
| "pairs_of (x # xs) = map (Pair x) xs @ pairs_of xs"

fun triples_of :: "'a list \<Rightarrow> ('a \<times> 'a \<times> 'a) list" where
  "triples_of [] = []"
| "triples_of (x # xs) = map (Pair x) (pairs_of xs) @ triples_of xs"

definition xwing_pair ::
    "bool \<Rightarrow> int \<Rightarrow> (int \<Rightarrow> int list) \<Rightarrow> int \<times> int \<Rightarrow> bool \<times> Board \<Rightarrow> bool \<times> Board" where
  "xwing_pair rowBased candidate linePositions p s =
     (let line1 = fst p; line2 = snd p;
          pos1 = linePositions line1; pos2 = linePositions line2
      in if length pos1 = 2 \<and> length pos2 = 2 \<and> pos1 ! 0 = pos2 ! 0 \<and> pos1 ! 1 = pos2 ! 1 then
           fold (\<lambda>otherLine.
                   if otherLine \<noteq> line1 \<and> otherLine \<noteq> line2
                   then fold (line_eliminate rowBased candidate otherLine) pos1 else id)
             [0..8] s
         else s)"

definition xwing_candidate :: "bool \<Rightarrow> int \<Rightarrow> bool \<times> Board \<Rightarrow> bool \<times> Board" where
  "xwing_candidate rowBased candidate s =
     (let linePositions = line_positions (snd s) rowBased candidate;
          lines = filter (\<lambda>line. length (linePositions line) = 2) [0..8]
      in fold (xwing_pair rowBased candidate linePositions) (pairs_of lines) s)"

definition Board_applyXWingsInDirection :: "Board \<Rightarrow> bool \<Rightarrow> bool \<times> Board" where
  "Board_applyXWingsInDirection b rowBased = fold (xwing_candidate rowBased) [1..9] (False, b)"

definition Board_applyXWings :: "Board \<Rightarrow> bool \<times> Board" where
  "Board_applyXWings b =
     (let r1 = Board_applyXWingsInDirection b True;
          r2 = Board_applyXWingsInDirection (snd r1) False
      in (fst r1 \<or> fst r2, snd r2))"

definition swordfish_triple ::
    "bool \<Rightarrow> int \<Rightarrow> (int \<Rightarrow> int list) \<Rightarrow> int \<times> int \<times> int \<Rightarrow> bool \<times> Board \<Rightarrow> bool \<times> Board" where
  "swordfish_triple rowBased candidate linePositions t s =
     (let line1 = fst t; line2 = fst (snd t); line3 = snd (snd t);
          posUnion = set (linePositions line1) \<union> set (linePositions line2)
                       \<union> set (linePositions line3)
      in if card posUnion = 3 then
           fold (\<lambda>otherLine.
                   if otherLine \<noteq> line1 \<and> otherLine \<noteq> line2 \<and> otherLine \<noteq> line3
                   then fold (line_eliminate rowBased candidate otherLine)
                          (sorted_list_of_set posUnion)
                   else id)
             [0..8] s
         else s)"

definition swordfish_candidate :: "bool \<Rightarrow> int \<Rightarrow> bool \<times> Board \<Rightarrow> bool \<times> Board" where
  "swordfish_candidate rowBased candidate s =
     (let linePositions = line_positions (snd s) rowBased candidate;
          lines = filter (\<lambda>line. length (linePositions line) \<ge> 2
                                  \<and> length (linePositions line) \<le> 3) [0..8]
      in fold (swordfish_triple rowBased candidate linePositions) (triples_of lines) s)"

definition Board_applySwordfishInDirection :: "Board \<Rightarrow> bool \<Rightarrow> bool \<times> Board" where
  "Board_applySwordfishInDirection b rowBased =
     fold (swordfish_candidate rowBased) [1..9] (False, b)"

definition Board_applySwordfish :: "Board \<Rightarrow> bool \<times> Board" where
  "Board_applySwordfish b =
     (let r1 = Board_applySwordfishInDirection b True;
          r2 = Board_applySwordfishInDirection (snd r1) False
      in (fst r1 \<or> fst r2, snd r2))"

text \<open>
  \<^verbatim>\<open>getVisibleCells(cell)\<close>: the cells other than \<open>cell\<close> in the scope of a constraint
  whose scope holds \<^verbatim>\<open>cell.GetIndex()\<close>. The source collects them in a map keyed by
  pointer; the model lists them by ascending slot.
\<close>

definition Board_getVisibleCells :: "Board \<Rightarrow> int \<Rightarrow> int list" where
  "Board_getVisibleCells b slot =
     (case board b slot of
        None \<Rightarrow> []
      | Some cell \<Rightarrow>
          filter (\<lambda>idx. idx \<noteq> slot \<and> Board_GetCell b idx \<noteq> None
                        \<and> (\<exists>constraint \<in> set (constraints b).
                              index cell \<in> set (Cells constraint)
                              \<and> idx \<in> set (Cells constraint)))
            [0..80])"

definition candidate_count_at :: "Board \<Rightarrow> int \<Rightarrow> int" where
  "candidate_count_at b i = (case board b i of None \<Rightarrow> 0 | Some cell \<Rightarrow> Cell_CandidateCount cell)"

text \<open>
  The count of candidates a wing shares with the pivot, and the candidate it does not
  share (\<^verbatim>\<open>sharedWithPivot\<close> and \<^verbatim>\<open>Z\<close> of the source, \<^verbatim>\<open>Z\<close> starting at 0).
\<close>

definition wing_shared :: "int \<Rightarrow> int \<Rightarrow> int list \<Rightarrow> int \<times> int" where
  "wing_shared X Y wingCands =
     (let s0 = (if wingCands ! 0 = X \<or> wingCands ! 0 = Y then (1, 0) else (0, wingCands ! 0))
      in if wingCands ! 1 = X \<or> wingCands ! 1 = Y then (fst s0 + 1, snd s0)
         else (fst s0, wingCands ! 1))"

definition xywing_wing2 ::
    "int \<Rightarrow> int \<Rightarrow> int \<Rightarrow> int \<Rightarrow> int \<Rightarrow> int \<Rightarrow> bool \<times> Board \<Rightarrow> bool \<times> Board" where
  "xywing_wing2 pivot X Y wing1 Z1 wing2 s =
     (if wing2 = wing1 \<or> candidate_count_at (snd s) wing2 \<noteq> 2 then s
      else
        let wing2Cands = GetCandidatesAsSlice (cell_candidates (snd s) wing2)
        in if length wing2Cands \<noteq> 2 then s
           else if fst (wing_shared X Y wing2Cands) \<noteq> 1 then s
           else if Z1 \<noteq> snd (wing_shared X Y wing2Cands) then s
           else
             let wing1Visible = Board_getVisibleCells (snd s) wing1;
                 wing2Visible = Board_getVisibleCells (snd s) wing2
             in fold (\<lambda>cell. if cell = pivot \<or> cell = wing1 \<or> cell = wing2 then id
                              else if cell \<in> set wing2Visible then eliminate cell Z1 else id)
                  wing1Visible s)"

definition xywing_wing1 ::
    "int \<Rightarrow> int \<Rightarrow> int \<Rightarrow> int list \<Rightarrow> int \<Rightarrow> bool \<times> Board \<Rightarrow> bool \<times> Board" where
  "xywing_wing1 pivot X Y visibleCells wing1 s =
     (if candidate_count_at (snd s) wing1 \<noteq> 2 then s
      else
        let wing1Cands = GetCandidatesAsSlice (cell_candidates (snd s) wing1)
        in if length wing1Cands \<noteq> 2 then s
           else if fst (wing_shared X Y wing1Cands) \<noteq> 1 then s
           else fold (xywing_wing2 pivot X Y wing1 (snd (wing_shared X Y wing1Cands)))
                  visibleCells s)"

definition xywing_pivot :: "int \<Rightarrow> bool \<times> Board \<Rightarrow> bool \<times> Board" where
  "xywing_pivot pivot s =
     (let pivotCands = GetCandidatesAsSlice (cell_candidates (snd s) pivot)
      in if length pivotCands \<noteq> 2 then s
         else
           let visibleCells = Board_getVisibleCells (snd s) pivot
           in fold (xywing_wing1 pivot (pivotCands ! 0) (pivotCands ! 1) visibleCells)
                visibleCells s)"

definition Board_applyXYWings :: "Board \<Rightarrow> bool \<times> Board" where
  "Board_applyXYWings b =
     (let cells2Cands =
            filter (\<lambda>idx. case Board_GetCell b idx of
                             None \<Rightarrow> False
                           | Some cell \<Rightarrow> \<not> Cell_IsSolved cell \<and> Cell_CandidateCount cell = 2)
              [0..80]
      in fold xywing_pivot cells2Cands (False, b))"

definition Board_ApplyAdvancedTechniques :: "Board \<Rightarrow> bool \<times> Board" where
  "Board_ApplyAdvancedTechniques b =
     (let x = Board_applyXWings b;
          sf = Board_applySwordfish (snd x);
          xy = Board_applyXYWings (snd sf)
      in (fst x \<or> fst sf \<or> fst xy, snd xy))"

text \<open>Running a list of \<^verbatim>\<open>board.Set\<close> calls in order, keeping each returned error.\<close>

fun set_all :: "(int \<times> int \<times> int) list \<Rightarrow> Board \<Rightarrow> error option list \<times> Board" where
  "set_all [] b = ([], b)"
| "set_all ((r, c, v) # rest) b =
     (let res = Board_Set r c v b; more = set_all rest (snd res)
      in (fst res # fst more, snd more))"

text \<open>
  A board owns its 81 cells when every slot 0..80 is filled, as \<^verbatim>\<open>NewBoard\<close> leaves
  it. The Go zero value of the struct (\<^verbatim>\<open>new(lib.Board)\<close>, \<^verbatim>\<open>&lib.Board{}\<close>) has
  every slot nil; \<^verbatim>\<open>Set\<close>, \<^verbatim>\<open>Get\<close>, \<^verbatim>\<open>GetCell\<close> and the passes all test for
  a nil slot.
\<close>

definition board_full :: "Board \<Rightarrow> bool" where
  "board_full b = (\<forall>i. 0 \<le> i \<and> i \<le> 80 \<longrightarrow> board b i \<noteq> None)"

definition zero_Board :: Board where
  "zero_Board = \<lparr>board = (\<lambda>i. None), constraints = [], observers = [], calls = []\<rparr>"

text \<open>
  The boards that \<^verbatim>\<open>NewBoard\<close> builds and the operations of the engine change: \<^verbatim>\<open>Set\<close>,
  \<^verbatim>\<open>AddConstraint\<close>, \<^verbatim>\<open>RemoveCandidate\<close> on a cell of the board, the propagation
  method of a constraint, and the deduction passes.
\<close>

inductive reachable :: "Board \<Rightarrow> bool" where
  "reachable NewBoard"
| "reachable b \<Longrightarrow> reachable (snd (Board_Set r c v b))"
| "reachable b \<Longrightarrow> reachable (Board_AddConstraint k b)"
| "reachable b \<Longrightarrow> reachable (RemoveCandidate_at i d b)"
| "reachable b \<Longrightarrow> reachable (Constraint_PropagateValueChange k r c v b)"
| "reachable b \<Longrightarrow> reachable (snd (Board_ApplyPencilMarkConstraints b))"
| "reachable b \<Longrightarrow> Board_ApplyPencilMarkConstraintsUntilStable b = Some (n, b')
     \<Longrightarrow> reachable b'"
| "reachable b \<Longrightarrow> reachable (snd (Board_ApplyAdvancedTechniques b))"

section \<open>Boards of the scenarios\<close>

text \<open>The row constraint of row 0, as its constructor returns it.\<close>

definition row0 :: Constraint where
  "row0 = projr (NewRowConstraint 0)"

text \<open>
  Scenario A: an empty grid with the row-0 constraint registered, then columns 0..7 of
  row 0 set to 1..8 in order.
\<close>

definition scenario_A :: "error option list \<times> Board" where
  "scenario_A =
     set_all [(0, 0, 1), (0, 1, 2), (0, 2, 3), (0, 3, 4), (0, 4, 5), (0, 5, 6), (0, 6, 7), (0, 7, 8)]
       (Board_AddConstraint row0 NewBoard)"

text \<open>The same grid with the digit 1 set at columns 0 and 2 of row 0.\<close>

definition twice_in_row :: "error option list \<times> Board" where
  "twice_in_row = set_all [(0, 0, 1), (0, 2, 1)] (Board_AddConstraint row0 NewBoard)"

text \<open>And with two different digits in row 0.\<close>

definition two_in_row :: "error option list \<times> Board" where
  "two_in_row = set_all [(0, 0, 1), (0, 1, 2)] (Board_AddConstraint row0 NewBoard)"

text \<open>Pruning by hand: a list of \<^verbatim>\<open>RemoveCandidate\<close> calls on cells of the board.\<close>

definition remove_all :: "(int \<times> int) list \<Rightarrow> Board \<Rightarrow> Board" where
  "remove_all xs b = fold (\<lambda>p. RemoveCandidate_at (fst p) (snd p)) xs b"

text \<open>
  Row 0 with columns 3..8 solved (3, 5, 6, 7, 8, 9) and the three unsolved cells pruned
  to \<open>{2,4}\<close>, \<open>{1}\<close> and \<open>{1,4}\<close>; and the same row after two passes of the subset
  engine.
\<close>

definition unstable_row :: Board where
  "unstable_row =
     remove_all
       (map (Pair 0) [1, 3, 5, 6, 7, 8, 9] @ map (Pair 1) [2, 3, 4, 5, 6, 7, 8, 9]
          @ map (Pair 2) [2, 3, 5, 6, 7, 8, 9])
       (snd (set_all [(0, 3, 3), (0, 4, 5), (0, 5, 6), (0, 6, 7), (0, 7, 8), (0, 8, 9)]
              (Board_AddConstraint row0 NewBoard)))"

definition stable_row :: Board where
  "stable_row = snd (subset_pass (snd (subset_pass unstable_row (Cells row0) 4)) (Cells row0) 4)"

section \<open>Measures and relations of the proofs\<close>

text \<open>
  \<open>shrinks b b'\<close>: the board \<open>b'\<close> is \<open>b\<close> with candidates removed and nothing else
  changed but the history of calls: the same slots are filled, each cell has its row,
  column, index, value and observers, and its candidates are a subset of what they were.
  \<open>strictly_shrinks\<close>: and some unsolved cell has lost one of the candidates it
  reported (\<^verbatim>\<open>GetCandidates\<close>). \<open>progress s s'\<close> relates
  the state of a pass (the flag \<^verbatim>\<open>changed\<close>, the board) before and after a step: nothing
  happened, or the flag is set and the board has strictly shrunk.
\<close>

fun slot_le :: "Cell option \<Rightarrow> Cell option \<Rightarrow> bool" where
  "slot_le None y = (y = None)"
| "slot_le (Some c) y = (\<exists>cs. cs \<subseteq> candidates c \<and> y = Some (c\<lparr>candidates := cs\<rparr>))"

definition shrinks :: "Board \<Rightarrow> Board \<Rightarrow> bool" where
  "shrinks b b' =
     (constraints b' = constraints b \<and> observers b' = observers b \<and>
      (\<forall>i. slot_le (board b i) (board b' i)))"

definition strictly_shrinks :: "Board \<Rightarrow> Board \<Rightarrow> bool" where
  "strictly_shrinks b b' =
     (shrinks b b' \<and> (\<exists>i d. d \<in> cell_candidates b i \<and> d \<notin> cell_candidates b' i))"

definition progress :: "bool \<times> Board \<Rightarrow> bool \<times> Board \<Rightarrow> bool" where
  "progress s s' = (s' = s \<or> (fst s' \<and> strictly_shrinks (snd s) (snd s')))"

text \<open>
  The measure of the specification: the candidates of all 81 cells, counted.
  \<open>board_ok\<close> is what the Go types guarantee of every board: cells live in the 81
  slots of the array only, and a candidate map has finitely many keys. (The model's
  slots range over all integers and its candidate sets over all sets.)
\<close>

definition total_candidates :: "Board \<Rightarrow> nat" where
  "total_candidates b =
     (\<Sum>i \<in> {0..80}. case board b i of None \<Rightarrow> 0 | Some c \<Rightarrow> card (candidates c))"

definition board_ok :: "Board \<Rightarrow> bool" where
  "board_ok b =
     (\<forall>i. case board b i of
            None \<Rightarrow> True
          | Some c \<Rightarrow> 0 \<le> i \<and> i \<le> 80 \<and> finite (candidates c))"

text \<open>
  \<open>steps b b'\<close>: a propagation method has left the board as it was, or has strictly
  shrunk it.
\<close>

definition steps :: "Board \<Rightarrow> Board \<Rightarrow> bool" where
  "steps b b' = (b' = b \<or> strictly_shrinks b b')"

text \<open>
  For the termination of the loop on every board of the model, whatever its slots hold:
  \<open>within W b b'\<close> says that \<open>b'\<close> is \<open>b\<close> shrunk by values of \<open>W\<close>, in the slots
  0..80 only; \<open>fin_ok W b\<close> that the finite candidate sets of the slots 0..80 lie in
  \<open>W\<close>; \<open>weight W b\<close> counts the candidates of the slots 0..80 that are in \<open>W\<close>;
  \<open>universe b\<close> is the digits 1..9 with the finite candidate sets of \<open>b\<close>.
\<close>

definition slot_candidates :: "Board \<Rightarrow> int \<Rightarrow> int set" where
  "slot_candidates b i = (case board b i of None \<Rightarrow> {} | Some c \<Rightarrow> candidates c)"

definition within :: "int set \<Rightarrow> Board \<Rightarrow> Board \<Rightarrow> bool" where
  "within W b b' =
     (shrinks b b' \<and>
      (\<forall>i. slot_candidates b i - slot_candidates b' i \<subseteq> W \<and>
           (slot_candidates b' i \<noteq> slot_candidates b i \<longrightarrow> 0 \<le> i \<and> i \<le> 80)))"

definition fin_ok :: "int set \<Rightarrow> Board \<Rightarrow> bool" where
  "fin_ok W b =
     (\<forall>i. 0 \<le> i \<and> i \<le> 80 \<and> finite (slot_candidates b i) \<longrightarrow> slot_candidates b i \<subseteq> W)"

definition weight :: "int set \<Rightarrow> Board \<Rightarrow> nat" where
  "weight W b = (\<Sum>i \<in> {0..80}. card (slot_candidates b i \<inter> W))"

definition universe :: "Board \<Rightarrow> int set" where
  "universe b =
     {1..9} \<union> (\<Union>i \<in> {0..80}. if finite (slot_candidates b i) then slot_candidates b i else {})"

section \<open>Properties\<close>

lemma run_cell_same:
  "board b i = Some c \<Longrightarrow> run_cell i (c, []) b = b"
  by (simp add: run_cell_def fun_upd_idem)

lemma NewBoard_full: "board_full NewBoard"
  by (simp add: board_full_def NewBoard_def)

text \<open>
  C10. A read outside the grid returns 0, the value an unsolved cell reads as, and
  no error: \<open>Board_Get\<close> has no error result at all.
\<close>

theorem Board_Get_out_of_bounds:
  "r < 0 \<or> r > 8 \<or> c < 0 \<or> c > 8 \<Longrightarrow> Board_Get b r c = 0"
  by (simp add: Board_Get_def)

theorem Board_Get_out_of_bounds_witness:
  "Board_Get NewBoard 9 0 = 0 \<and> Board_Get NewBoard 0 (- 1) = 0 \<and> Board_Get NewBoard 4 4 = 0"
  using Board_Get_out_of_bounds [of 9 0 NewBoard] Board_Get_out_of_bounds [of 0 "- 1" NewBoard]
  by (simp add: Board_Get_def NewBoard_def NewCell_def Cell_GetValue_def)

subsection \<open>Setting and clearing values\<close>

text \<open>
  C1, as the code has it. \<open>SetValue(0)\<close> stores the value 0, sends no notification
  and does not touch the candidates: whatever the cell held as candidates it still
  holds, and the cell reads as unsolved. It does not put the nine candidates back.
\<close>

theorem Cell_SetValue_zero:
  "Cell_SetValue 0 c = (None, c\<lparr>cell_value := 0\<rparr>, [])
   \<and> candidates (fst (snd (Cell_SetValue 0 c))) = candidates c
   \<and> \<not> Cell_IsSolved (fst (snd (Cell_SetValue 0 c)))"
  by (simp add: Cell_SetValue_def Cell_IsSolved_def)

text \<open>
  C1 as stated fails on a solved cell: the cell of row 0, column 0, set to 5 and then
  cleared, has value 0 and no candidate at all.
\<close>

theorem Cell_SetValue_zero_after_solve:
  "cell_value (fst (snd (Cell_SetValue 0 (fst (snd (Cell_SetValue 5 (NewCell 0 0))))))) = 0
   \<and> candidates (fst (snd (Cell_SetValue 0 (fst (snd (Cell_SetValue 5 (NewCell 0 0))))))) = {}
   \<and> candidates (fst (snd (Cell_SetValue 0 (fst (snd (Cell_SetValue 5 (NewCell 0 0))))))) \<noteq> {1..9}"
  by (simp add: Cell_SetValue_def NewCell_def)

subsection \<open>Uniqueness is validated, not enforced\<close>

lemma HasUniqueNonZeros_seen_distinct:
  "HasUniqueNonZeros_seen seen vs \<Longrightarrow>
     distinct (filter (\<lambda>v. v \<noteq> 0) vs) \<and> set (filter (\<lambda>v. v \<noteq> 0) vs) \<inter> seen = {}"
  by (induction seen vs rule: HasUniqueNonZeros_seen.induct) (auto split: if_splits)

lemma HasUniqueNonZeros_distinct:
  "HasUniqueNonZeros vs \<Longrightarrow> distinct (filter (\<lambda>v. v \<noteq> 0) vs)"
  using HasUniqueNonZeros_seen_distinct [of "{}" vs] by (simp add: HasUniqueNonZeros_def)

lemma Board_Get_slot:
  "0 \<le> r \<Longrightarrow> r \<le> 8 \<Longrightarrow> 0 \<le> c \<Longrightarrow> c \<le> 8 \<Longrightarrow> Board_Get b r c = slot_value b (r * 9 + c)"
  by (simp add: Board_Get_def slot_value_def)

lemma cell_div_mod:
  "0 \<le> c \<Longrightarrow> c \<le> 8 \<Longrightarrow> (r * 9 + c) div 9 = r \<and> (r * 9 + c) mod 9 = (c::int)"
  by auto

lemma Board_Get_cell:
  "0 \<le> r \<and> r \<le> 8 \<and> 0 \<le> c \<and> c \<le> 8 \<Longrightarrow>
     Board_Get b ((r * 9 + c) div 9) ((r * 9 + c) mod 9) = slot_value b (r * 9 + c)"
  by (simp add: cell_div_mod Board_Get_slot)

lemma scope_values_map:
  assumes "\<And>x. x \<in> set xs \<Longrightarrow> 0 \<le> R x \<and> R x \<le> 8 \<and> 0 \<le> C x \<and> C x \<le> 8"
  shows "scope_values b (map (\<lambda>x. R x * 9 + C x) xs) = map (\<lambda>x. slot_value b (R x * 9 + C x)) xs"
  unfolding scope_values_def map_map comp_def
  by (rule map_cong [OF refl], rule Board_Get_cell, rule assms)

lemma scope_values_concat:
  "scope_values b (concat xss) = concat (map (scope_values b) xss)"
  by (induction xss) (simp_all add: scope_values_def)

lemma row_scope_values:
  assumes "0 \<le> r" "r \<le> 8"
  shows "scope_values b (map (\<lambda>c. r * 9 + c) [0..8]) = Board_GetRow b r"
  unfolding Board_GetRow_def
  by (rule scope_values_map [where R = "\<lambda>_. r" and C = "\<lambda>c. c"]) (use assms in auto)

lemma column_scope_values:
  assumes "0 \<le> c" "c \<le> 8"
  shows "scope_values b (map (\<lambda>r. r * 9 + c) [0..8]) = Board_GetColumn b c"
  unfolding Board_GetColumn_def
  by (rule scope_values_map [where R = "\<lambda>r. r" and C = "\<lambda>_. c"]) (use assms in auto)

lemma box_scope_values:
  assumes "0 \<le> box" "box \<le> 8"
  shows "scope_values b
           (concat (map (\<lambda>r. map (\<lambda>c. (box div 3 * 3 + r) * 9 + (box mod 3 * 3 + c)) [0..2]) [0..2]))
         = Board_GetBox b box"
proof -
  have bnd: "0 \<le> box div 3 * 3" "box div 3 * 3 \<le> 6" "0 \<le> box mod 3 * 3" "box mod 3 * 3 \<le> 6"
    using assms by auto
  have inner: "scope_values b (map (\<lambda>c. (box div 3 * 3 + r) * 9 + (box mod 3 * 3 + c)) [0..2])
        = map (\<lambda>c. slot_value b ((box div 3 * 3 + r) * 9 + (box mod 3 * 3 + c))) [0..2]"
    if "r \<in> set [0..2]" for r
    by (rule scope_values_map [where R = "\<lambda>_. box div 3 * 3 + r" and C = "\<lambda>c. box mod 3 * 3 + c"])
       (use bnd that in auto)
  show ?thesis
    unfolding scope_values_concat Board_GetBox_def Let_def map_map comp_def
    by (rule arg_cong [where f = concat], rule map_cong [OF refl], rule inner)
qed

lemma constructed_shape:
  assumes "constructed k"
  shows "case kind k of
           RowConstraint r \<Rightarrow> 0 \<le> r \<and> r \<le> 8 \<and> Cells k = map (\<lambda>c. r * 9 + c) [0..8]
         | ColumnConstraint c \<Rightarrow> 0 \<le> c \<and> c \<le> 8 \<and> Cells k = map (\<lambda>r. r * 9 + c) [0..8]
         | BoxConstraint box \<Rightarrow> 0 \<le> box \<and> box \<le> 8 \<and>
             Cells k = concat (map (\<lambda>r. map (\<lambda>c. (box div 3 * 3 + r) * 9 + (box mod 3 * 3 + c)) [0..2]) [0..2])
         | _ \<Rightarrow> True"
  using assms
proof (induction rule: constructed.induct)
  case (1 r k) then show ?case by (auto simp: NewRowConstraint_def split: if_splits)
next
  case (2 c k) then show ?case by (auto simp: NewColumnConstraint_def split: if_splits)
next
  case (3 box k) then show ?case by (auto simp: NewBoxConstraint_def Let_def split: if_splits)
next
  case (4 cells targetSum k) then show ?case
    by (auto simp: NewKillerCageConstraint_def split: if_splits)
next
  case (5 cells k) then show ?case by (auto simp: NewRenbanConstraint_def split: if_splits)
next
  case (6 cells k) then show ?case by (auto simp: NewGermanWhispersConstraint_def split: if_splits)
next
  case (7 k) then show ?case by (simp split: constraint_kind.splits)
qed

lemma row0_eq:
  "NewRowConstraint 0 = Inr row0"
  "row0 = \<lparr>Cells = [0, 1, 2, 3, 4, 5, 6, 7, 8], Board_assigned = False, kind = RowConstraint 0\<rparr>"
  by (simp_all add: row0_def NewRowConstraint_def upto_rec1)

text \<open>
  C2 as stated fails. \<open>Board.Set\<close> never looks at the other cells: with the row-0
  constraint registered, setting 1 at column 0 and again at column 2 succeeds twice, and
  row 0 then holds the digit 1 twice.
\<close>

theorem Board_Set_allows_duplicate:
  "Constraint_RequiresUniqueness row0
   \<and> fst twice_in_row = [None, None]
   \<and> scope_values (snd twice_in_row) (Cells row0) = [1, 0, 1, 0, 0, 0, 0, 0, 0]
   \<and> \<not> distinct (filter (\<lambda>v. v \<noteq> 0) (scope_values (snd twice_in_row) (Cells row0)))"
  by code_simp

text \<open>
  C2, as the code has it. Duplicates are found by validation: for every constraint that
  requires uniqueness and every board, if the constraint's \<open>IsValid\<close> returns true then
  no digit is solved twice in its scope.
\<close>

theorem IsValid_no_duplicate:
  assumes "constructed k" and "Constraint_RequiresUniqueness k"
    and "Constraint_IsValid k (Some b) = Inr True"
  shows "distinct (filter (\<lambda>v. v \<noteq> 0) (scope_values b (Cells k)))"
proof (cases "kind k")
  case (RowConstraint r)
  with constructed_shape [OF assms(1)]
  have "scope_values b (Cells k) = Board_GetRow b r" by (simp add: row_scope_values)
  moreover from RowConstraint assms(3) have "HasUniqueNonZeros (Board_GetRow b r)"
    by (simp add: Constraint_IsValid_def)
  ultimately show ?thesis by (simp add: HasUniqueNonZeros_distinct)
next
  case (ColumnConstraint c)
  with constructed_shape [OF assms(1)]
  have "scope_values b (Cells k) = Board_GetColumn b c" by (simp add: column_scope_values)
  moreover from ColumnConstraint assms(3) have "HasUniqueNonZeros (Board_GetColumn b c)"
    by (simp add: Constraint_IsValid_def)
  ultimately show ?thesis by (simp add: HasUniqueNonZeros_distinct)
next
  case (BoxConstraint box)
  with constructed_shape [OF assms(1)]
  have box: "0 \<le> box" "box \<le> 8"
    and cells: "Cells k = concat (map (\<lambda>r. map (\<lambda>c. (box div 3 * 3 + r) * 9 + (box mod 3 * 3 + c)) [0..2]) [0..2])"
    by simp_all
  have "scope_values b (Cells k) = Board_GetBox b box"
    unfolding cells by (rule box_scope_values [OF box])
  moreover from BoxConstraint assms(3) have "HasUniqueNonZeros (Board_GetBox b box)"
    by (simp add: Constraint_IsValid_def)
  ultimately show ?thesis by (simp add: HasUniqueNonZeros_distinct)
next
  case (KillerCageConstraint targetSum)
  with assms(3) have "HasUniqueNonZeros (scope_values b (Cells k))"
    by (auto simp: Constraint_IsValid_def Let_def split: if_splits)
  then show ?thesis by (rule HasUniqueNonZeros_distinct)
next
  case RenbanConstraint
  with assms(3) have "HasUniqueNonZeros (scope_values b (Cells k))"
    by (auto simp: Constraint_IsValid_def Let_def split: if_splits)
  then show ?thesis by (rule HasUniqueNonZeros_distinct)
next
  case GermanWhispersConstraint
  with assms(2) show ?thesis by (simp add: Constraint_RequiresUniqueness_def)
qed

theorem IsValid_no_duplicate_witness:
  "constructed row0 \<and> Constraint_RequiresUniqueness row0
   \<and> Constraint_IsValid row0 (Some (snd two_in_row)) = Inr True
   \<and> scope_values (snd two_in_row) (Cells row0) = [1, 2, 0, 0, 0, 0, 0, 0, 0]
   \<and> distinct (filter (\<lambda>v. v \<noteq> 0) (scope_values (snd two_in_row) (Cells row0)))"
proof -
  have h1: "constructed row0" by (rule constructed.intros(1) [OF row0_eq(1)])
  have h2: "Constraint_RequiresUniqueness row0" by code_simp
  have h3: "Constraint_IsValid row0 (Some (snd two_in_row)) = Inr True" by code_simp
  have h4: "scope_values (snd two_in_row) (Cells row0) = [1, 2, 0, 0, 0, 0, 0, 0, 0]" by code_simp
  show ?thesis using h1 h2 h3 h4 IsValid_no_duplicate [OF h1 h2 h3] by simp
qed

subsection \<open>Setting a value does not propagate\<close>

text \<open>
  C4 at its own scenario. The eight \<open>set\<close> calls succeed. Each sends one
  \<open>OnCellSolved\<close> to the row constraint, which runs the empty
  \<open>BaseConstraint.PropagateValueChange\<close>: no candidate is removed anywhere, so the cell
  at row 0, column 8 keeps its nine candidates and no \<open>SingleCandidate\<close> is ever sent.
  Only the last part of the claim holds: the cell's value is still 0.
\<close>

theorem scenario_A_runs:
  "fst scenario_A = [None, None, None, None, None, None, None, None]
   \<and> map_option candidates (board (snd scenario_A) 8) = Some {1, 2, 3, 4, 5, 6, 7, 8, 9}
   \<and> map snd (calls (snd scenario_A)) =
       [CellSolved 0 0 1, CellSolved 0 1 2, CellSolved 0 2 3, CellSolved 0 3 4,
        CellSolved 0 4 5, CellSolved 0 5 6, CellSolved 0 6 7, CellSolved 0 7 8]
   \<and> Board_Get (snd scenario_A) 0 8 = 0"
  by code_simp

subsection \<open>The deduction passes only eliminate\<close>

lemma handle_id: "handle obs e b = b"
  by (cases obs; cases e)
     (simp_all add: BaseConstraint_OnCellSolved_def BaseConstraint_PropagateValueChange_def
        BaseConstraint_OnSingleCandidate_def BaseConstraint_OnCandidateEliminated_def)

lemma call_observer_eq: "call_observer e obs b = b\<lparr>calls := calls b @ [(obs, e)]\<rparr>"
  by (simp add: call_observer_def handle_id)

lemma Notify_eq: "Notify obss e b = b\<lparr>calls := calls b @ map (\<lambda>obs. (obs, e)) obss\<rparr>"
  unfolding Notify_def
  by (induction obss arbitrary: b) (simp_all add: call_observer_eq)

lemma fold_Notify_eq:
  "fold (Notify obss) es b = b\<lparr>calls := calls b @ concat (map (\<lambda>e. map (\<lambda>obs. (obs, e)) obss) es)\<rparr>"
  by (induction es arbitrary: b) (simp_all add: Notify_eq)

lemma run_cell_eq:
  "run_cell i r b =
     b\<lparr>board := (board b)(i \<mapsto> fst r),
       calls := calls b @ concat (map (\<lambda>e. map (\<lambda>obs. (obs, e)) (notifier (fst r))) (snd r))\<rparr>"
  by (simp add: run_cell_def fold_Notify_eq)

lemma slot_le_refl: "slot_le x x"
proof (cases x)
  case None
  then show ?thesis by simp
next
  case (Some c)
  have "candidates c \<subseteq> candidates c \<and> Some c = Some (c\<lparr>candidates := candidates c\<rparr>)" by simp
  then show ?thesis unfolding Some slot_le.simps by blast
qed

lemma slot_le_trans:
  assumes "slot_le x y" "slot_le y z"
  shows "slot_le x z"
proof (cases x)
  case None
  with assms show ?thesis by simp
next
  case (Some c)
  with assms(1) obtain cs where cs: "cs \<subseteq> candidates c" "y = Some (c\<lparr>candidates := cs\<rparr>)"
    by auto
  with assms(2) obtain cs' where cs': "cs' \<subseteq> cs" "z = Some (c\<lparr>candidates := cs'\<rparr>)"
    by auto
  from cs(1) cs' have "cs' \<subseteq> candidates c \<and> z = Some (c\<lparr>candidates := cs'\<rparr>)" by auto
  then show ?thesis unfolding Some slot_le.simps by blast
qed

lemma slot_le_Some:
  "slot_le x (Some c') \<Longrightarrow>
     \<exists>c. x = Some c \<and> c' = c\<lparr>candidates := candidates c'\<rparr> \<and> candidates c' \<subseteq> candidates c"
  by (cases x) auto

lemma shrinks_refl: "shrinks b b"
  by (simp add: shrinks_def slot_le_refl)

lemma shrinks_trans: "shrinks a b \<Longrightarrow> shrinks b c \<Longrightarrow> shrinks a c"
  unfolding shrinks_def by (auto intro: slot_le_trans)

lemma shrinks_slot: "shrinks b b' \<Longrightarrow> slot_le (board b i) (board b' i)"
  by (simp add: shrinks_def)

lemma shrinks_cell_candidates:
  assumes "shrinks b b'"
  shows "cell_candidates b' i \<subseteq> cell_candidates b i"
proof (cases "board b i")
  case None
  with shrinks_slot [OF assms, of i] show ?thesis by (simp add: cell_candidates_def)
next
  case (Some c)
  with shrinks_slot [OF assms, of i] obtain cs where
    "cs \<subseteq> candidates c" "board b' i = Some (c\<lparr>candidates := cs\<rparr>)" by auto
  with Some show ?thesis by (auto simp: cell_candidates_def Cell_GetCandidates_def)
qed

lemma strictly_shrinks_trans1:
  assumes "strictly_shrinks a b" "shrinks b c"
  shows "strictly_shrinks a c"
proof -
  from assms(1) obtain i d where ab: "shrinks a b" and
    d: "d \<in> cell_candidates a i" "d \<notin> cell_candidates b i"
    unfolding strictly_shrinks_def by blast
  from d(2) shrinks_cell_candidates [OF assms(2), of i] have "d \<notin> cell_candidates c i"
    by blast
  with d(1) shrinks_trans [OF ab assms(2)] show ?thesis
    unfolding strictly_shrinks_def by blast
qed

lemma progress_refl: "progress s s"
  by (simp add: progress_def)

lemma progress_trans:
  assumes "progress s s'" "progress s' s''"
  shows "progress s s''"
proof (cases "s' = s \<or> s'' = s'")
  case True
  with assms show ?thesis by auto
next
  case False
  with assms have a: "strictly_shrinks (snd s) (snd s')" and b: "fst s''"
    and c: "strictly_shrinks (snd s') (snd s'')"
    by (auto simp: progress_def)
  from c have "shrinks (snd s') (snd s'')" by (simp add: strictly_shrinks_def)
  with a have "strictly_shrinks (snd s) (snd s'')" by (rule strictly_shrinks_trans1)
  with b show ?thesis by (simp add: progress_def)
qed

lemma progress_fold:
  "(\<And>x s. x \<in> set xs \<Longrightarrow> progress s (f x s)) \<Longrightarrow> progress s (fold f xs s)"
proof (induction xs arbitrary: s)
  case Nil
  then show ?case by (simp add: progress_refl)
next
  case (Cons x xs)
  have "progress s (f x s)" by (rule Cons.prems) simp
  moreover have "progress (f x s) (fold f xs (f x s))"
    by (rule Cons.IH) (rule Cons.prems, simp)
  ultimately show ?case by (simp add: progress_trans)
qed

lemma progress_id: "progress s (id s)"
  by (simp add: progress_refl)

lemma RemoveCandidate_at_strict:
  assumes "board b i = Some cell" "Cell_HasCandidate cell d"
  shows "strictly_shrinks b (RemoveCandidate_at i d b)"
proof -
  from assms(2) have v: "cell_value cell = 0" and d: "d \<in> candidates cell"
    by (auto simp: Cell_HasCandidate_def split: if_splits)
  have eq: "board (RemoveCandidate_at i d b) = (board b)(i \<mapsto> cell\<lparr>candidates := candidates cell - {d}\<rparr>)"
    using assms(1) v d
    by (simp add: RemoveCandidate_at_def run_cell_eq Cell_RemoveCandidate_def Let_def)
  have rest: "constraints (RemoveCandidate_at i d b) = constraints b"
    "observers (RemoveCandidate_at i d b) = observers b"
    using assms(1) by (simp_all add: RemoveCandidate_at_def run_cell_eq)
  have "slot_le (board b j) (((board b)(i \<mapsto> cell\<lparr>candidates := candidates cell - {d}\<rparr>)) j)" for j
  proof (cases "j = i")
    case True
    have "candidates cell - {d} \<subseteq> candidates cell \<and>
        Some (cell\<lparr>candidates := candidates cell - {d}\<rparr>) = Some (cell\<lparr>candidates := candidates cell - {d}\<rparr>)"
      by auto
    then show ?thesis unfolding True using assms(1) by (simp del: Diff_subset) blast
  next
    case False
    then show ?thesis by (simp add: slot_le_refl)
  qed
  then have "shrinks b (RemoveCandidate_at i d b)"
    unfolding shrinks_def eq using rest by simp
  moreover have "d \<in> cell_candidates b i"
    using assms(1) v d by (simp add: cell_candidates_def Cell_GetCandidates_def)
  moreover have "d \<notin> cell_candidates (RemoveCandidate_at i d b) i"
    unfolding cell_candidates_def eq by (simp add: Cell_GetCandidates_def)
  ultimately show ?thesis
    unfolding strictly_shrinks_def by blast
qed

lemma eliminate_progress: "progress s (eliminate i d s)"
  by (auto simp: eliminate_def progress_def RemoveCandidate_at_strict split: option.splits)

lemma line_eliminate_progress: "progress s (line_eliminate rb d l p s)"
  by (auto simp: line_eliminate_def Let_def progress_def Board_GetCellAt_def
      RemoveCandidate_at_strict split: option.splits if_splits)

lemma progress_if_fold:
  "progress s ((if P then fold f xs else id) s)" if "\<And>x s. progress s (f x s)"
  using that by (simp add: progress_fold progress_refl)

lemma naked_combo_progress: "progress s (naked_combo U k combo s)"
  unfolding naked_combo_def Let_def
  by (auto intro!: progress_fold progress_refl eliminate_progress)

lemma ApplyNakedSubsets_progress: "progress (False, b) (ApplyNakedSubsets b cells cap)"
  unfolding ApplyNakedSubsets_def Let_def
  by (auto intro!: progress_fold progress_refl naked_combo_progress)

lemma hidden_combo_progress: "progress s (hidden_combo locs act k combo s)"
  unfolding hidden_combo_def Let_def
  by (auto intro!: progress_fold progress_refl eliminate_progress)

lemma ApplyHiddenSubsets_progress: "progress (False, b) (ApplyHiddenSubsets b cells cap)"
  unfolding ApplyHiddenSubsets_def Let_def
  by (auto intro!: progress_fold progress_refl hidden_combo_progress)

lemma progress_seq:
  assumes "progress (False, b) n" "progress (False, snd n) h"
  shows "progress (False, b) (fst h \<or> fst n, snd h)" "progress (False, b) (fst n \<or> fst h, snd h)"
proof -
  have "progress (False, b) (fst n \<or> fst h, snd h)"
  proof (cases "fst n")
    case False
    with assms(1) have n: "n = (False, b)" by (auto simp: progress_def)
    with assms(2) show ?thesis by (cases h) (auto simp: progress_def)
  next
    case True
    with assms(1) have st: "strictly_shrinks b (snd n)" by (auto simp: progress_def)
    from assms(2) have "shrinks (snd n) (snd h)"
      by (auto simp: progress_def strictly_shrinks_def shrinks_refl)
    with st have "strictly_shrinks b (snd h)" by (rule strictly_shrinks_trans1)
    with True show ?thesis by (simp add: progress_def)
  qed
  then show "progress (False, b) (fst h \<or> fst n, snd h)" "progress (False, b) (fst n \<or> fst h, snd h)"
    by (simp_all add: disj_commute)
qed

lemma subset_pass_progress: "progress (False, b) (subset_pass b cells cap)"
  unfolding subset_pass_def Let_def
  by (rule progress_seq(1) [OF ApplyNakedSubsets_progress ApplyHiddenSubsets_progress])

lemma Constraint_ApplyPencilMarkConstraints_progress:
  "progress (False, b) (Constraint_ApplyPencilMarkConstraints k b)"
  unfolding Constraint_ApplyPencilMarkConstraints_def
  by (cases "kind k") (simp_all add: subset_pass_progress progress_refl)

lemma progress_lift:
  assumes "progress (False, snd s) r"
  shows "progress s (if fst r then True else fst s, snd r)"
proof (cases "fst r")
  case True
  with assms show ?thesis by (auto simp: progress_def)
next
  case False
  with assms have "r = (False, snd s)" by (auto simp: progress_def)
  then show ?thesis by (simp add: progress_def)
qed

lemma Board_ApplyPencilMarkConstraints_progress:
  "progress (False, b) (Board_ApplyPencilMarkConstraints b)"
  unfolding Board_ApplyPencilMarkConstraints_def
proof (rule progress_fold)
  fix x :: Constraint and s :: "bool \<times> Board"
  have "progress s (if fst (Constraint_ApplyPencilMarkConstraints x (snd s)) then True else fst s,
                    snd (Constraint_ApplyPencilMarkConstraints x (snd s)))"
    by (rule progress_lift) (rule Constraint_ApplyPencilMarkConstraints_progress)
  then show "progress s
     (if Constraint_RequiresUniqueness x
      then let r = Constraint_ApplyPencilMarkConstraints x (snd s)
           in (if fst r then True else fst s, snd r)
      else s)"
    by (simp add: Let_def progress_refl)
qed

lemma xwing_pair_progress: "progress s (xwing_pair rb d lp p s)"
  unfolding xwing_pair_def Let_def
  by (auto intro!: progress_fold progress_refl line_eliminate_progress)

lemma xwing_candidate_progress: "progress s (xwing_candidate rb d s)"
  unfolding xwing_candidate_def Let_def
  by (auto intro!: progress_fold xwing_pair_progress)

lemma Board_applyXWingsInDirection_progress:
  "progress (False, b) (Board_applyXWingsInDirection b rb)"
  unfolding Board_applyXWingsInDirection_def
  by (auto intro!: progress_fold xwing_candidate_progress)

lemma Board_applyXWings_progress: "progress (False, b) (Board_applyXWings b)"
  unfolding Board_applyXWings_def Let_def
  by (rule progress_seq(2) [OF Board_applyXWingsInDirection_progress
        Board_applyXWingsInDirection_progress])

lemma swordfish_triple_progress: "progress s (swordfish_triple rb d lp t s)"
  unfolding swordfish_triple_def Let_def
  by (auto intro!: progress_fold progress_refl line_eliminate_progress)

lemma swordfish_candidate_progress: "progress s (swordfish_candidate rb d s)"
  unfolding swordfish_candidate_def Let_def
  by (auto intro!: progress_fold swordfish_triple_progress)

lemma Board_applySwordfishInDirection_progress:
  "progress (False, b) (Board_applySwordfishInDirection b rb)"
  unfolding Board_applySwordfishInDirection_def
  by (auto intro!: progress_fold swordfish_candidate_progress)

lemma Board_applySwordfish_progress: "progress (False, b) (Board_applySwordfish b)"
  unfolding Board_applySwordfish_def Let_def
  by (rule progress_seq(2) [OF Board_applySwordfishInDirection_progress
        Board_applySwordfishInDirection_progress])

lemma xywing_wing2_progress: "progress s (xywing_wing2 pivot X Y w1 Z1 w2 s)"
  unfolding xywing_wing2_def Let_def
  by (auto intro!: progress_fold progress_refl eliminate_progress)

lemma xywing_wing1_progress: "progress s (xywing_wing1 pivot X Y vis w1 s)"
  unfolding xywing_wing1_def Let_def
  by (auto intro!: progress_fold progress_refl xywing_wing2_progress)

lemma xywing_pivot_progress: "progress s (xywing_pivot pivot s)"
  unfolding xywing_pivot_def Let_def
  by (auto intro!: progress_fold progress_refl xywing_wing1_progress)

lemma Board_applyXYWings_progress: "progress (False, b) (Board_applyXYWings b)"
  unfolding Board_applyXYWings_def Let_def
  by (auto intro!: progress_fold xywing_pivot_progress)

lemma Board_ApplyAdvancedTechniques_progress:
  "progress (False, b) (Board_ApplyAdvancedTechniques b)"
proof -
  let ?x = "Board_applyXWings b"
  let ?sf = "Board_applySwordfish (snd ?x)"
  let ?xy = "Board_applyXYWings (snd ?sf)"
  have 1: "progress (False, b) (fst ?x \<or> fst ?sf, snd ?sf)"
    by (rule progress_seq(2) [OF Board_applyXWings_progress Board_applySwordfish_progress])
  have 2: "progress (False, snd (fst ?x \<or> fst ?sf, snd ?sf)) ?xy"
    by (simp add: Board_applyXYWings_progress)
  from progress_seq(2) [OF 1 2] show ?thesis
    by (simp add: Board_ApplyAdvancedTechniques_def Let_def disj_assoc)
qed

lemma progress_unchanged:
  "progress (False, b) r \<Longrightarrow> \<not> fst r \<Longrightarrow> r = (False, b)"
  by (auto simp: progress_def)

lemma progress_changed:
  "progress (False, b) r \<Longrightarrow> fst r \<Longrightarrow> strictly_shrinks b (snd r)"
  by (auto simp: progress_def)

lemma shrinks_board_ok:
  assumes "shrinks b b'" "board_ok b"
  shows "board_ok b'"
  unfolding board_ok_def
proof
  fix i
  from assms(2) have ok: "case board b i of None \<Rightarrow> True
      | Some c \<Rightarrow> 0 \<le> i \<and> i \<le> 80 \<and> finite (candidates c)"
    by (simp add: board_ok_def)
  show "case board b' i of None \<Rightarrow> True
      | Some c \<Rightarrow> 0 \<le> i \<and> i \<le> 80 \<and> finite (candidates c)"
  proof (cases "board b i")
    case None
    with shrinks_slot [OF assms(1), of i] ok show ?thesis by simp
  next
    case (Some c)
    with shrinks_slot [OF assms(1), of i] obtain cs where
      "cs \<subseteq> candidates c" "board b' i = Some (c\<lparr>candidates := cs\<rparr>)" by auto
    with ok Some show ?thesis by (auto intro: finite_subset)
  qed
qed

lemma shrinks_total_le:
  assumes "shrinks b b'" "board_ok b"
  shows "(case board b' i of None \<Rightarrow> 0 | Some c \<Rightarrow> card (candidates c))
       \<le> (case board b i of None \<Rightarrow> 0 | Some c \<Rightarrow> card (candidates c))"
proof (cases "board b i")
  case None
  with shrinks_slot [OF assms(1), of i] show ?thesis by simp
next
  case (Some c)
  with shrinks_slot [OF assms(1), of i] obtain cs where
    cs: "cs \<subseteq> candidates c" "board b' i = Some (c\<lparr>candidates := cs\<rparr>)" by auto
  from assms(2) Some have "finite (candidates c)"
    by (auto simp: board_ok_def split: option.splits dest: spec [where x = i])
  with cs Some show ?thesis by (simp add: card_mono)
qed

lemma strictly_shrinks_total:
  assumes "strictly_shrinks b b'" "board_ok b"
  shows "total_candidates b' < total_candidates b"
proof -
  from assms(1) obtain i d where sh: "shrinks b b'"
    and d: "d \<in> cell_candidates b i" "d \<notin> cell_candidates b' i"
    unfolding strictly_shrinks_def by blast
  from d(1) obtain c where c: "board b i = Some c" "cell_value c = 0" "d \<in> candidates c"
    by (auto simp: cell_candidates_def Cell_GetCandidates_def split: option.splits if_splits)
  from shrinks_slot [OF sh, of i] c(1) obtain cs where
    cs: "cs \<subseteq> candidates c" "board b' i = Some (c\<lparr>candidates := cs\<rparr>)" by auto
  define c' where "c' = c\<lparr>candidates := cs\<rparr>"
  from d(2) cs c have "d \<notin> cs"
    by (simp add: cell_candidates_def Cell_GetCandidates_def)
  with cs c have i: "board b i = Some c" "board b' i = Some c'" "candidates c' \<subset> candidates c"
    by (auto simp: c'_def)
  from assms(2) i(1) have rng: "i \<in> {0..80}" and fin: "finite (candidates c)"
    by (auto simp: board_ok_def split: option.splits dest: spec [where x = i])
  have "card (candidates c') < card (candidates c)"
    using fin i(3) by (rule psubset_card_mono)
  with i have lt: "(case board b' i of None \<Rightarrow> 0 | Some c \<Rightarrow> card (candidates c))
       < (case board b i of None \<Rightarrow> 0 | Some c \<Rightarrow> card (candidates c))" by simp
  show ?thesis
    unfolding total_candidates_def
    by (rule sum_strict_mono_ex1) (use rng lt shrinks_total_le [OF sh assms(2)] in auto)
qed

lemma shrinks_slot_candidates:
  assumes "shrinks b b'"
  shows "slot_candidates b' i \<subseteq> slot_candidates b i"
proof (cases "board b i")
  case None
  with shrinks_slot [OF assms, of i] show ?thesis by (simp add: slot_candidates_def)
next
  case (Some c)
  with shrinks_slot [OF assms, of i] obtain cs where
    "cs \<subseteq> candidates c" "board b' i = Some (c\<lparr>candidates := cs\<rparr>)" by auto
  with Some show ?thesis by (simp add: slot_candidates_def)
qed

lemma within_refl: "within W b b"
  by (simp add: within_def shrinks_refl)

lemma within_trans:
  assumes "within W a b" "within W b c"
  shows "within W a c"
proof -
  from assms have sh: "shrinks a c" by (auto simp: within_def intro: shrinks_trans)
  have "slot_candidates a i - slot_candidates c i \<subseteq> W \<and>
        (slot_candidates c i \<noteq> slot_candidates a i \<longrightarrow> 0 \<le> i \<and> i \<le> 80)" for i
  proof -
    from assms(1) have 1: "slot_candidates a i - slot_candidates b i \<subseteq> W"
      "slot_candidates b i \<noteq> slot_candidates a i \<longrightarrow> 0 \<le> i \<and> i \<le> 80"
      by (simp_all add: within_def)
    from assms(2) have 2: "slot_candidates b i - slot_candidates c i \<subseteq> W"
      "slot_candidates c i \<noteq> slot_candidates b i \<longrightarrow> 0 \<le> i \<and> i \<le> 80"
      by (simp_all add: within_def)
    from 1(1) 2(1) have "slot_candidates a i - slot_candidates c i \<subseteq> W" by blast
    moreover from 1(2) 2(2)
    have "slot_candidates c i \<noteq> slot_candidates a i \<longrightarrow> 0 \<le> i \<and> i \<le> 80" by metis
    ultimately show ?thesis by simp
  qed
  with sh show ?thesis by (simp add: within_def)
qed

lemma within_fin_ok:
  assumes "finite W" "fin_ok W b" "within W b b'"
  shows "fin_ok W b'"
  unfolding fin_ok_def
proof (intro allI impI)
  fix i
  assume a: "0 \<le> i \<and> i \<le> 80 \<and> finite (slot_candidates b' i)"
  from assms(3) have sh: "shrinks b b'" and d: "slot_candidates b i - slot_candidates b' i \<subseteq> W"
    by (simp_all add: within_def)
  have sub: "slot_candidates b' i \<subseteq> slot_candidates b i"
    by (rule shrinks_slot_candidates [OF sh])
  have "slot_candidates b i \<subseteq> slot_candidates b' i \<union> W" using d by blast
  then have "finite (slot_candidates b i)"
    using a assms(1) by (meson finite_UnI finite_subset)
  with assms(2) a have "slot_candidates b i \<subseteq> W" by (simp add: fin_ok_def)
  with sub show "slot_candidates b' i \<subseteq> W" by blast
qed

lemma within_weight_less:
  assumes "finite W" "within W b b'" "strictly_shrinks b b'"
  shows "weight W b' < weight W b"
proof -
  from assms(2) have sh: "shrinks b b'" by (simp add: within_def)
  from assms(3) obtain i d where
    d: "d \<in> cell_candidates b i" "d \<notin> cell_candidates b' i"
    unfolding strictly_shrinks_def by blast
  from d(1) obtain c where c: "board b i = Some c" "cell_value c = 0" "d \<in> candidates c"
    by (auto simp: cell_candidates_def Cell_GetCandidates_def split: option.splits if_splits)
  from shrinks_slot [OF sh, of i] c(1) obtain cs where
    cs: "cs \<subseteq> candidates c" "board b' i = Some (c\<lparr>candidates := cs\<rparr>)" by auto
  from d(2) cs c have dn: "d \<notin> cs"
    by (simp add: cell_candidates_def Cell_GetCandidates_def)
  have s1: "slot_candidates b i = candidates c" "slot_candidates b' i = cs"
    using c cs by (simp_all add: slot_candidates_def)
  from s1 dn c(3) have ne: "slot_candidates b' i \<noteq> slot_candidates b i" by auto
  with assms(2) have rng: "i \<in> {0..80}" by (simp add: within_def)
  from assms(2) have "slot_candidates b i - slot_candidates b' i \<subseteq> W" by (simp add: within_def)
  with s1 dn c(3) have dW: "d \<in> W" by auto
  have "slot_candidates b' i \<inter> W \<subset> slot_candidates b i \<inter> W"
    using s1 dn c(3) dW cs(1) by auto
  then have lt: "card (slot_candidates b' i \<inter> W) < card (slot_candidates b i \<inter> W)"
    using assms(1) by (simp add: psubset_card_mono)
  have le: "card (slot_candidates b' j \<inter> W) \<le> card (slot_candidates b j \<inter> W)" for j
    using shrinks_slot_candidates [OF sh, of j] assms(1)
    by (intro card_mono) auto
  show ?thesis
    unfolding weight_def
    by (rule sum_strict_mono_ex1) (use rng lt le in auto)
qed

lemma within_fold:
  assumes "finite W" "fin_ok W (snd s)"
    and "\<And>x t. x \<in> set xs \<Longrightarrow> fin_ok W (snd t) \<Longrightarrow> within W (snd t) (snd (f x t))"
  shows "within W (snd s) (snd (fold f xs s))"
  using assms(2,3)
proof (induction xs arbitrary: s)
  case Nil
  then show ?case by (simp add: within_refl)
next
  case (Cons x xs)
  have 1: "within W (snd s) (snd (f x s))" by (rule Cons.prems(2)) (simp_all add: Cons.prems(1))
  have 2: "fin_ok W (snd (f x s))" by (rule within_fin_ok [OF assms(1) Cons.prems(1) 1])
  have "within W (snd (f x s)) (snd (fold f xs (f x s)))"
    by (rule Cons.IH [OF 2]) (rule Cons.prems(2), simp_all)
  with 1 show ?case by (simp add: within_trans)
qed

lemma RemoveCandidate_at_within:
  assumes "0 \<le> i" "i \<le> 80" "d \<in> W"
  shows "within W b (RemoveCandidate_at i d b)"
proof (cases "board b i")
  case None
  then show ?thesis by (simp add: RemoveCandidate_at_def within_refl)
next
  case (Some cell)
  show ?thesis
  proof (cases "Cell_HasCandidate cell d")
    case False
    then have "Cell_RemoveCandidate d cell = (cell, [])"
      by (auto simp: Cell_RemoveCandidate_def Cell_HasCandidate_def split: if_splits)
    with Some show ?thesis by (simp add: RemoveCandidate_at_def run_cell_same within_refl)
  next
    case True
    then have v: "cell_value cell = 0" and dc: "d \<in> candidates cell"
      by (auto simp: Cell_HasCandidate_def split: if_splits)
    have eq: "board (RemoveCandidate_at i d b)
        = (board b)(i \<mapsto> cell\<lparr>candidates := candidates cell - {d}\<rparr>)"
      using Some v dc
      by (simp add: RemoveCandidate_at_def run_cell_eq Cell_RemoveCandidate_def Let_def)
    have sc: "slot_candidates (RemoveCandidate_at i d b) j
        = (if j = i then slot_candidates b j - {d} else slot_candidates b j)" for j
      unfolding slot_candidates_def eq using Some by simp
    have "shrinks b (RemoveCandidate_at i d b)"
      using RemoveCandidate_at_strict [OF Some True] by (simp add: strictly_shrinks_def)
    then show ?thesis
      unfolding within_def sc using assms by auto
  qed
qed

lemma eliminate_within:
  assumes "0 \<le> i" "i \<le> 80" "d \<in> W"
  shows "within W (snd s) (snd (eliminate i d s))"
  using RemoveCandidate_at_within [OF assms, of "snd s"]
  by (simp add: eliminate_def within_refl split: option.splits)

lemma cell_candidates_sub:
  assumes "fin_ok W b" "0 \<le> i" "i \<le> 80" "finite (cell_candidates b i)"
  shows "cell_candidates b i \<subseteq> W"
proof (cases "cell_candidates b i = {}")
  case True
  then show ?thesis by simp
next
  case False
  then have "cell_candidates b i = slot_candidates b i"
    by (auto simp: cell_candidates_def slot_candidates_def Cell_GetCandidates_def
        split: option.splits if_splits)
  with assms show ?thesis by (simp add: fin_ok_def)
qed

lemma naked_combo_within:
  assumes "finite W" "fin_ok W (snd s)" "set U \<subseteq> {0..80}" "set combo \<subseteq> {..<length U}"
  shows "within W (snd s) (snd (naked_combo U k combo s))"
proof -
  define members where "members = map (\<lambda>idx. U ! idx) combo"
  define CU where "CU = (\<Union>cell \<in> set members. cell_candidates (snd s) cell)"
  have mem: "set members \<subseteq> {0..80}"
  proof
    fix m assume "m \<in> set members"
    then obtain idx where "idx \<in> set combo" "m = U ! idx" by (auto simp: members_def)
    with assms(4) have "m \<in> set U" by auto
    with assms(3) show "m \<in> {0..80}" by blast
  qed
  have sub: "set (sorted_list_of_set CU) \<subseteq> W"
  proof (cases "finite CU")
    case False
    then show ?thesis by simp
  next
    case True
    have "cell_candidates (snd s) m \<subseteq> W" if "m \<in> set members" for m
    proof -
      from that have "cell_candidates (snd s) m \<subseteq> CU" by (auto simp: CU_def)
      with True have "finite (cell_candidates (snd s) m)" by (rule rev_finite_subset)
      moreover from that mem have "0 \<le> m" "m \<le> 80" by auto
      ultimately show ?thesis using assms(2) by (simp add: cell_candidates_sub)
    qed
    then have "CU \<subseteq> W" by (auto simp: CU_def)
    with True show ?thesis by simp
  qed
  have inner: "within W (snd t) (snd (fold (eliminate cell) (sorted_list_of_set CU) t))"
    if "cell \<in> set U" "fin_ok W (snd t)" for cell t
  proof (rule within_fold [OF assms(1) that(2)])
    fix x and u :: "bool \<times> Board"
    assume "x \<in> set (sorted_list_of_set CU)"
    with sub have "x \<in> W" by blast
    moreover from that(1) assms(3) have "0 \<le> cell" "cell \<le> 80" by auto
    ultimately show "within W (snd u) (snd (eliminate cell x u))"
      by (simp add: eliminate_within)
  qed
  have outer: "within W (snd s)
      (snd (fold (\<lambda>cell. if cell \<notin> set members
                         then fold (eliminate cell) (sorted_list_of_set CU) else id) U s))"
  proof (rule within_fold [OF assms(1,2)])
    fix x and t :: "bool \<times> Board"
    assume "x \<in> set U" "fin_ok W (snd t)"
    then show "within W (snd t)
        (snd ((if x \<notin> set members then fold (eliminate x) (sorted_list_of_set CU) else id) t))"
      using inner [of x t] by (simp add: within_refl)
  qed
  show ?thesis
    unfolding naked_combo_def Let_def members_def [symmetric] CU_def [symmetric]
    using outer by (simp add: within_refl)
qed

lemma generate_sound:
  "c \<in> set (generate n m start pre) \<Longrightarrow> set c \<subseteq> set pre \<union> {start..<n}"
proof (induction m arbitrary: start pre)
  case 0
  then show ?case by simp
next
  case (Suc m)
  from Suc.prems obtain i where i: "i \<in> {start..<n}"
    and c: "c \<in> set (generate n m (Suc i) (pre @ [i]))" by auto
  from Suc.IH [OF c] have "set c \<subseteq> set (pre @ [i]) \<union> {Suc i..<n}" .
  with i show ?case by auto
qed

lemma GenerateCombinations_sound:
  assumes "c \<in> set (GenerateCombinations (int n) k)"
  shows "set c \<subseteq> {..<n}"
proof -
  from assms have "c \<in> set (generate n (nat k) 0 [])"
    by (simp add: GenerateCombinations_def split: if_splits)
  from generate_sound [OF this] show ?thesis by auto
qed

lemma unsolved_cells_range: "set (unsolved_cells b cells) \<subseteq> {0..80}"
  by (auto simp: unsolved_cells_def Board_GetCell_def split: if_splits option.splits)

lemma ApplyNakedSubsets_within:
  assumes "finite W" "fin_ok W b"
  shows "within W b (snd (ApplyNakedSubsets b cells cap))"
proof -
  define U where "U = unsolved_cells b cells"
  have U: "set U \<subseteq> {0..80}" unfolding U_def by (rule unsolved_cells_range)
  have "within W (snd s) (snd (fold (\<lambda>subsetSize.
                        fold (naked_combo U subsetSize)
                          (GenerateCombinations (int (length U)) subsetSize))
                  ks s))" if "fin_ok W (snd s)" for s ks
  proof (rule within_fold [OF assms(1) that])
    fix k and t :: "bool \<times> Board"
    assume t: "fin_ok W (snd t)"
    show "within W (snd t)
        (snd (fold (naked_combo U k) (GenerateCombinations (int (length U)) k) t))"
    proof (rule within_fold [OF assms(1) t])
      fix combo and u :: "bool \<times> Board"
      assume "combo \<in> set (GenerateCombinations (int (length U)) k)" "fin_ok W (snd u)"
      then show "within W (snd u) (snd (naked_combo U k combo u))"
        using naked_combo_within [OF assms(1) _ U] GenerateCombinations_sound by blast
    qed
  qed
  from this [of "(False, b)"] assms(2) show ?thesis
    unfolding ApplyNakedSubsets_def Let_def U_def [symmetric]
    by (simp add: within_refl)
qed

lemma hidden_combo_within:
  assumes "finite W" "{1..9} \<subseteq> W" "fin_ok W (snd s)" "\<And>d. set (locs d) \<subseteq> {0..80}"
  shows "within W (snd s) (snd (hidden_combo locs act k combo s))"
proof -
  define sc where "sc = map (\<lambda>idx. act ! idx) combo"
  define CU where "CU = (\<Union>candidate \<in> set sc. set (locs candidate))"
  have fin: "finite CU" by (simp add: CU_def)
  have rng: "CU \<subseteq> {0..80}" using assms(4) by (auto simp: CU_def)
  have outer: "within W (snd s)
      (snd (fold (\<lambda>cell. fold (\<lambda>candidate. if candidate \<notin> set sc
                                 then eliminate cell candidate else id) [1..9])
             (sorted_list_of_set CU) s))"
  proof (rule within_fold [OF assms(1,3)])
    fix cell and t :: "bool \<times> Board"
    assume cell: "cell \<in> set (sorted_list_of_set CU)" and t: "fin_ok W (snd t)"
    from cell fin rng have r: "0 \<le> cell" "cell \<le> 80" by auto
    show "within W (snd t)
        (snd (fold (\<lambda>candidate. if candidate \<notin> set sc
                                 then eliminate cell candidate else id) [1..9] t))"
    proof (rule within_fold [OF assms(1) t])
      fix d and u :: "bool \<times> Board"
      assume "d \<in> set [1..9]"
      with assms(2) have "d \<in> W" by auto
      then show "within W (snd u) (snd ((if d \<notin> set sc then eliminate cell d else id) u))"
        using eliminate_within [OF r, of d W u] by (simp add: within_refl)
    qed
  qed
  show ?thesis
    unfolding hidden_combo_def Let_def sc_def [symmetric] CU_def [symmetric]
    using outer by (simp add: within_refl)
qed

lemma hidden_fold_within:
  assumes "finite W" "{1..9} \<subseteq> W" "fin_ok W (snd s)" "\<And>d. set (locs d) \<subseteq> {0..80}"
  shows "within W (snd s) (snd (fold (\<lambda>subsetSize.
                        fold (hidden_combo locs act subsetSize)
                          (GenerateCombinations n subsetSize))
                  ks s))"
proof (rule within_fold [OF assms(1,3)])
  fix k and t :: "bool \<times> Board"
  assume t: "fin_ok W (snd t)"
  show "within W (snd t)
      (snd (fold (hidden_combo locs act k) (GenerateCombinations n k) t))"
  proof (rule within_fold [OF assms(1) t])
    fix combo and u :: "bool \<times> Board"
    assume "fin_ok W (snd u)"
    then show "within W (snd u) (snd (hidden_combo locs act k combo u))"
      by (rule hidden_combo_within [OF assms(1,2)]) (rule assms(4))
  qed
qed

lemma ApplyHiddenSubsets_within:
  assumes "finite W" "{1..9} \<subseteq> W" "fin_ok W b"
  shows "within W b (snd (ApplyHiddenSubsets b cells cap))"
proof -
  have locs: "set (filter (\<lambda>cell. d \<in> cell_candidates b cell) (unsolved_cells b cells))
      \<subseteq> {0..80}" for d
    using unsolved_cells_range [of b cells] by auto
  have "within W b (snd (fold (\<lambda>subsetSize.
        fold (hidden_combo
               (\<lambda>candidate. filter (\<lambda>cell. candidate \<in> cell_candidates b cell)
                   (unsolved_cells b cells)) act subsetSize)
          (GenerateCombinations n subsetSize)) ks (False, b)))" for act n ks
    using hidden_fold_within [OF assms(1,2), of "(False, b)"
        "\<lambda>candidate. filter (\<lambda>cell. candidate \<in> cell_candidates b cell)
                   (unsolved_cells b cells)" act n ks] assms(3) locs
    by simp
  then show ?thesis
    unfolding ApplyHiddenSubsets_def Let_def
    by (simp add: within_refl)
qed

lemma subset_pass_within:
  assumes "finite W" "{1..9} \<subseteq> W" "fin_ok W b"
  shows "within W b (snd (subset_pass b cells cap))"
proof -
  have 1: "within W b (snd (ApplyNakedSubsets b cells cap))"
    by (rule ApplyNakedSubsets_within [OF assms(1,3)])
  have 2: "fin_ok W (snd (ApplyNakedSubsets b cells cap))"
    by (rule within_fin_ok [OF assms(1,3) 1])
  have "within W (snd (ApplyNakedSubsets b cells cap))
      (snd (ApplyHiddenSubsets (snd (ApplyNakedSubsets b cells cap)) cells cap))"
    by (rule ApplyHiddenSubsets_within [OF assms(1,2) 2])
  with 1 show ?thesis
    unfolding subset_pass_def Let_def by (simp add: within_trans)
qed

lemma Constraint_ApplyPencilMarkConstraints_within:
  assumes "finite W" "{1..9} \<subseteq> W" "fin_ok W b"
  shows "within W b (snd (Constraint_ApplyPencilMarkConstraints k b))"
  unfolding Constraint_ApplyPencilMarkConstraints_def
  by (cases "kind k") (simp_all add: subset_pass_within [OF assms] within_refl)

lemma Board_ApplyPencilMarkConstraints_within:
  assumes "finite W" "{1..9} \<subseteq> W" "fin_ok W b"
  shows "within W b (snd (Board_ApplyPencilMarkConstraints b))"
proof -
  have "within W (snd s) (snd (fold (\<lambda>constraint s.
             if Constraint_RequiresUniqueness constraint then
               (let r = Constraint_ApplyPencilMarkConstraints constraint (snd s)
                in (if fst r then True else fst s, snd r))
             else s) ks s))" if "fin_ok W (snd s)" for s ks
  proof (rule within_fold [OF assms(1) that])
    fix k and t :: "bool \<times> Board"
    assume "fin_ok W (snd t)"
    then show "within W (snd t)
        (snd (if Constraint_RequiresUniqueness k then
               (let r = Constraint_ApplyPencilMarkConstraints k (snd t)
                in (if fst r then True else fst t, snd r))
             else t))"
      using Constraint_ApplyPencilMarkConstraints_within [OF assms(1,2), of "snd t" k]
      by (simp add: Let_def within_refl)
  qed
  from this [of "(False, b)"] assms(3) show ?thesis
    unfolding Board_ApplyPencilMarkConstraints_def by simp
qed

lemma until_stable_bounded:
  assumes "finite W" "{1..9} \<subseteq> W" "fin_ok W b"
  shows "\<exists>n b'. until_stable k b = Some (n, b') \<and> k + 1 \<le> n \<and> shrinks b b'"
  using assms(3)
proof (induction "weight W b" arbitrary: b k rule: less_induct)
  case less
  let ?r = "Board_ApplyPencilMarkConstraints b"
  have w: "within W b (snd ?r)"
    by (rule Board_ApplyPencilMarkConstraints_within [OF assms(1,2) less.prems])
  then have sh: "shrinks b (snd ?r)" by (simp add: within_def)
  show ?case
  proof (cases "fst ?r")
    case False
    then have "until_stable k b = Some (k + 1, snd ?r)"
      by (subst until_stable.simps) (simp add: Let_def)
    with sh show ?thesis by simp
  next
    case True
    from progress_changed [OF Board_ApplyPencilMarkConstraints_progress True]
    have st: "strictly_shrinks b (snd ?r)" .
    have lt: "weight W (snd ?r) < weight W b"
      by (rule within_weight_less [OF assms(1) w st])
    have ok: "fin_ok W (snd ?r)" by (rule within_fin_ok [OF assms(1) less.prems w])
    from less.hyps [OF lt ok, of "k + 1"] obtain n b' where
      r: "until_stable (k + 1) (snd ?r) = Some (n, b')" "k + 1 + 1 \<le> n" "shrinks (snd ?r) b'"
      by blast
    moreover have "until_stable k b = until_stable (k + 1) (snd ?r)"
      using True by (subst until_stable.simps) (simp add: Let_def)
    moreover have "shrinks b b'" by (rule shrinks_trans [OF sh r(3)])
    ultimately show ?thesis by auto
  qed
qed

lemma universe_ok: "finite (universe b) \<and> {1..9} \<subseteq> universe b \<and> fin_ok (universe b) b"
  by (auto simp: universe_def fin_ok_def)

lemma until_stable_returns:
  "\<exists>n b'. until_stable k b = Some (n, b') \<and> k + 1 \<le> n \<and> shrinks b b'"
  using until_stable_bounded [of "universe b" b k] universe_ok [of b] by blast

subsection \<open>One pass of the subset engine is not a fixpoint\<close>

text \<open>
  C3 as stated fails. In row 0 the unsolved cells at columns 0, 1, 2 hold \<open>{2,4}\<close>,
  \<open>{1}\<close>, \<open>{1,4}\<close>. The first pass reaches the pair (1, 2) last among the pairs;
  its union \<open>{1,4}\<close> has two members, so 4 leaves cell 0. Now cells 0 and 1 hold
  \<open>{2}\<close> and \<open>{1}\<close>, a union of two members, but the pair (0, 1) was examined before;
  the hidden pass sees one digit in two cells or more and returns. The pass reports a
  change. The second pass finds the pair (0, 1), removes 1 from cell 2 and reports a
  change again.
\<close>

theorem subset_pass_not_idempotent:
  "map (cell_candidates unstable_row) (unsolved_cells unstable_row (Cells row0)) = [{2, 4}, {1}, {1, 4}]
   \<and> fst (subset_pass unstable_row (Cells row0) 4)
   \<and> map (cell_candidates (snd (subset_pass unstable_row (Cells row0) 4))) [0, 1, 2] = [{2}, {1}, {1, 4}]
   \<and> fst (subset_pass (snd (subset_pass unstable_row (Cells row0) 4)) (Cells row0) 4)
   \<and> map (cell_candidates stable_row) [0, 1, 2] = [{2}, {1}, {4}]"
  by code_simp

text \<open>
  C3, as the code has it. For every board, scope and maximum subset size: a pass of the
  subset engine (naked, then hidden) that reports no change has left the board as it
  was, and a second pass on it reports no change again; a pass that reports a change
  has only removed candidates (every cell keeps its position, value and observers, the
  constraints and observers of the board are the same) and some cell has lost a
  candidate that \<^verbatim>\<open>GetCandidates\<close> reported before the pass.
\<close>

theorem subset_pass_stable:
  "(\<not> fst (subset_pass b cells cap) \<longrightarrow>
      subset_pass b cells cap = (False, b)
      \<and> \<not> fst (subset_pass (snd (subset_pass b cells cap)) cells cap))
   \<and> (fst (subset_pass b cells cap) \<longrightarrow>
      shrinks b (snd (subset_pass b cells cap))
      \<and> (\<exists>i d. d \<in> cell_candidates b i
                \<and> d \<notin> cell_candidates (snd (subset_pass b cells cap)) i))"
proof (cases "fst (subset_pass b cells cap)")
  case False
  have "subset_pass b cells cap = (False, b)"
    by (rule progress_unchanged [OF subset_pass_progress False])
  with False show ?thesis by simp
next
  case True
  have "strictly_shrinks b (snd (subset_pass b cells cap))"
    by (rule progress_changed [OF subset_pass_progress True])
  with True show ?thesis by (simp add: strictly_shrinks_def)
qed

theorem subset_pass_stable_witness:
  "\<not> fst (subset_pass stable_row (Cells row0) 4)
   \<and> subset_pass stable_row (Cells row0) 4 = (False, stable_row)
   \<and> \<not> fst (subset_pass (snd (subset_pass stable_row (Cells row0) 4)) (Cells row0) 4)
   \<and> fst (subset_pass unstable_row (Cells row0) 4)
   \<and> shrinks unstable_row (snd (subset_pass unstable_row (Cells row0) 4))
   \<and> (\<exists>i d. d \<in> cell_candidates unstable_row i
             \<and> d \<notin> cell_candidates (snd (subset_pass unstable_row (Cells row0) 4)) i)"
proof -
  have h: "\<not> fst (subset_pass stable_row (Cells row0) 4)" by code_simp
  have g: "fst (subset_pass unstable_row (Cells row0) 4)" by code_simp
  show ?thesis
    using h g subset_pass_stable [of stable_row "Cells row0" 4]
      subset_pass_stable [of unstable_row "Cells row0" 4]
    by simp
qed

subsection \<open>Propagation methods only eliminate\<close>

lemma steps_refl: "steps b b"
  by (simp add: steps_def)

lemma steps_shrinks: "steps b b' \<Longrightarrow> shrinks b b'"
  by (auto simp: steps_def strictly_shrinks_def shrinks_refl)

lemma steps_trans:
  assumes "steps a b" "steps b c"
  shows "steps a c"
proof (cases "b = a")
  case True
  with assms(2) show ?thesis by simp
next
  case False
  with assms(1) have "strictly_shrinks a b" by (simp add: steps_def)
  then have "strictly_shrinks a c"
    by (rule strictly_shrinks_trans1) (rule steps_shrinks [OF assms(2)])
  then show ?thesis by (simp add: steps_def)
qed

lemma steps_fold:
  "(\<And>x b. steps b (f x b)) \<Longrightarrow> steps b (fold f xs b)"
proof (induction xs arbitrary: b)
  case Nil
  then show ?case by (simp add: steps_refl)
next
  case (Cons x xs)
  have "steps b (f x b)" by (rule Cons.prems)
  moreover have "steps (f x b) (fold f xs (f x b))" by (rule Cons.IH) (rule Cons.prems)
  ultimately show ?case by (simp add: steps_trans)
qed

lemma RemoveCandidate_at_cases:
  "RemoveCandidate_at i d b = b \<or> strictly_shrinks b (RemoveCandidate_at i d b)"
proof (cases "board b i")
  case None
  then show ?thesis by (simp add: RemoveCandidate_at_def)
next
  case (Some cell)
  show ?thesis
  proof (cases "Cell_HasCandidate cell d")
    case True
    with Some show ?thesis by (simp add: RemoveCandidate_at_strict)
  next
    case False
    then have "Cell_RemoveCandidate d cell = (cell, [])"
      by (auto simp: Cell_RemoveCandidate_def Cell_HasCandidate_def split: if_splits)
    with Some show ?thesis by (simp add: RemoveCandidate_at_def run_cell_same)
  qed
qed

lemma RemoveCandidate_at_steps: "steps b (RemoveCandidate_at i d b)"
  using RemoveCandidate_at_cases [of i d b] by (simp add: steps_def)

lemma remove_if_unsolved_steps: "steps b (remove_if_unsolved r c d b)"
  by (simp add: remove_if_unsolved_def RemoveCandidate_at_steps steps_refl split: option.splits)

lemma Unique_PropagateValueChange_steps: "steps b (Unique_PropagateValueChange k r c v b)"
  unfolding Unique_PropagateValueChange_def Let_def
  by (auto intro!: steps_fold simp: steps_refl remove_if_unsolved_steps)

lemma cage_prune_steps: "steps b (cage_prune n m idx d b)"
  by (simp add: cage_prune_def Let_def RemoveCandidate_at_steps steps_refl)

lemma KillerCage_PropagateValueChange_steps:
  "steps b (KillerCage_PropagateValueChange k t r c v b)"
proof -
  have 1: "steps b (fold (\<lambda>otherIndex bd.
                         if otherIndex \<noteq> x
                         then remove_if_unsolved (otherIndex div 9) (otherIndex mod 9) v bd
                         else bd) cells b)" for x cells b
    by (rule steps_fold) (simp add: steps_refl remove_if_unsolved_steps)
  have 2: "steps b (fold (\<lambda>idx bd.
                   case Board_GetCellAt bd (idx div 9) (idx mod 9) of
                     None \<Rightarrow> bd
                   | Some otherCell \<Rightarrow>
                       if Cell_GetValue otherCell = 0
                       then fold (cage_prune n m ((idx div 9) * 9 + idx mod 9)) [1..9] bd
                       else bd) cells b)" for n m cells b
    by (rule steps_fold)
       (auto intro!: steps_fold simp: steps_refl cage_prune_steps split: option.splits)
  show ?thesis
    unfolding KillerCage_PropagateValueChange_def Let_def
    using steps_trans [OF 1 2] by (simp add: steps_refl)
qed

lemma renban_prune_steps: "steps b (renban_prune lo hi n idx d b)"
  by (simp add: renban_prune_def Let_def RemoveCandidate_at_steps steps_refl)

lemma Renban_PropagateValueChange_steps:
  "steps b (Renban_PropagateValueChange k r c v b)"
proof -
  have 1: "steps b (fold (\<lambda>otherIndex bd.
                         if otherIndex \<noteq> x
                         then remove_if_unsolved (otherIndex div 9) (otherIndex mod 9) v bd
                         else bd) cells b)" for x cells b
    by (rule steps_fold) (simp add: steps_refl remove_if_unsolved_steps)
  have 2: "steps b (fold (\<lambda>idx bd.
                   case Board_GetCellAt bd (idx div 9) (idx mod 9) of
                     None \<Rightarrow> bd
                   | Some otherCell \<Rightarrow>
                       if Cell_GetValue otherCell = 0
                       then fold (renban_prune lo hi n ((idx div 9) * 9 + idx mod 9)) [1..9] bd
                       else bd) cells b)" for lo hi n cells b
    by (rule steps_fold)
       (auto intro!: steps_fold simp: steps_refl renban_prune_steps split: option.splits)
  show ?thesis
    unfolding Renban_PropagateValueChange_def Let_def
    using steps_trans [OF 1 2] by (simp add: steps_refl)
qed

lemma whispers_prune_steps: "steps b (whispers_prune v idx d b)"
  by (simp add: whispers_prune_def Let_def RemoveCandidate_at_steps steps_refl)

lemma whispers_neighbour_steps: "steps b (whispers_neighbour v idx b)"
  unfolding whispers_neighbour_def
  by (auto intro!: steps_fold simp: steps_refl whispers_prune_steps split: option.splits)

lemma GermanWhispers_PropagateValueChange_steps:
  "steps b (GermanWhispers_PropagateValueChange k r c v b)"
proof -
  have "steps b (if q then whispers_neighbour v y (if p then whispers_neighbour v x b else b)
                 else (if p then whispers_neighbour v x b else b))" for p q x y
    using steps_trans [OF whispers_neighbour_steps [of b v x]
        whispers_neighbour_steps [of "whispers_neighbour v x b" v y]]
    by (simp add: steps_refl whispers_neighbour_steps)
  then show ?thesis
    unfolding GermanWhispers_PropagateValueChange_def Let_def
    by (simp add: steps_refl split: option.splits)
qed

lemma Constraint_PropagateValueChange_steps:
  "steps b (Constraint_PropagateValueChange k r c v b)"
  unfolding Constraint_PropagateValueChange_def
  by (cases "kind k")
     (simp_all add: Unique_PropagateValueChange_steps KillerCage_PropagateValueChange_steps
        Renban_PropagateValueChange_steps GermanWhispers_PropagateValueChange_steps)

subsection \<open>Boards built by NewBoard own their 81 cells\<close>

lemma board_full_shrinks:
  assumes "board_full b" "shrinks b b'"
  shows "board_full b'"
  unfolding board_full_def
proof (intro allI impI)
  fix i :: int
  assume "0 \<le> i \<and> i \<le> 80"
  with assms(1) obtain c where "board b i = Some c" by (auto simp: board_full_def)
  with shrinks_slot [OF assms(2), of i] show "board b' i \<noteq> None" by auto
qed

lemma board_full_Set:
  assumes "board_full b"
  shows "board_full (snd (Board_Set r c v b))"
  using assms
  by (simp add: Board_Set_def Let_def run_cell_eq board_full_def)

lemma board_full_AddConstraint:
  assumes "board_full b"
  shows "board_full (Board_AddConstraint k b)"
proof -
  have "board_full (fold (\<lambda>cellIndex bd.
                 if cellIndex \<ge> 0 \<and> cellIndex \<le> 80 then
                   (case board bd cellIndex of
                      None \<Rightarrow> bd
                    | Some cell \<Rightarrow>
                        bd\<lparr>board := (board bd)(cellIndex \<mapsto> Cell_AddObserver obs cell)\<rparr>)
                 else bd) xs bd)" if "board_full bd" for xs bd obs
    using that
  proof (induction xs arbitrary: bd)
    case Nil
    then show ?case by simp
  next
    case (Cons x xs)
    show ?case
      unfolding fold_Cons comp_apply
      by (rule Cons.IH) (use Cons.prems in \<open>auto simp: board_full_def split: option.splits\<close>)
  qed
  moreover have "board_full (b\<lparr>constraints := cs\<rparr>)" for cs
    using assms by (simp add: board_full_def)
  ultimately show ?thesis
    unfolding Board_AddConstraint_def Let_def by blast
qed

lemma reachable_full: "reachable b \<Longrightarrow> board_full b"
proof (induction rule: reachable.induct)
  case 1
  show ?case by (rule NewBoard_full)
next
  case (2 b r c v)
  then show ?case by (simp add: board_full_Set)
next
  case (3 b k)
  then show ?case by (simp add: board_full_AddConstraint)
next
  case (4 b i d)
  then show ?case
    using steps_shrinks [OF RemoveCandidate_at_steps] board_full_shrinks by blast
next
  case (5 b k r c v)
  then show ?case
    using steps_shrinks [OF Constraint_PropagateValueChange_steps] board_full_shrinks by blast
next
  case (6 b)
  have "shrinks b (snd (Board_ApplyPencilMarkConstraints b))"
    using Board_ApplyPencilMarkConstraints_progress [of b]
    by (auto simp: progress_def strictly_shrinks_def shrinks_refl)
  with 6 show ?case using board_full_shrinks by blast
next
  case (7 b n b')
  from until_stable_returns [of 0 b] 7(2) have "shrinks b b'"
    by (auto simp: Board_ApplyPencilMarkConstraintsUntilStable_def)
  with 7 show ?case using board_full_shrinks by blast
next
  case (8 b)
  have "shrinks b (snd (Board_ApplyAdvancedTechniques b))"
    using Board_ApplyAdvancedTechniques_progress [of b]
    by (auto simp: progress_def strictly_shrinks_def shrinks_refl)
  with 8 show ?case using board_full_shrinks by blast
qed

subsection \<open>Invalid calls of Set\<close>

text \<open>
  C8 as stated fails on a board with a nil slot. \<open>Set\<close> fills a nil slot with a new
  cell before \<open>SetValue\<close> looks at the value. On the zero value of \<open>Board\<close> the call
  \<open>Set(0, 0, 10)\<close> returns the error for the value, and the slot that was nil now
  holds a cell with nine candidates.
\<close>

theorem Board_Set_invalid_creates_cell:
  "fst (Board_Set 0 0 10 zero_Board) = Some InvalidValue
   \<and> Board_GetCell zero_Board 0 = None
   \<and> Board_GetCell (snd (Board_Set 0 0 10 zero_Board)) 0 = Some (NewCell 0 0)
   \<and> cell_candidates zero_Board 0 = {}
   \<and> cell_candidates (snd (Board_Set 0 0 10 zero_Board)) 0 = {1, 2, 3, 4, 5, 6, 7, 8, 9}"
  by code_simp

text \<open>
  C8, as the code has it, for every board. A \<open>set\<close> with a row or column outside 0..8
  returns the position error and the board is the board it found. A \<open>set\<close> at a valid
  position with a value outside 0..9 returns the value error; the board is the board it
  found when the slot holds a cell, and otherwise the board with a new cell in that one
  slot. In both cases no observer is called, the constraints and observers of the board
  are the same, every cell that existed is as it was (value, candidates, observers), and
  the same call again returns the same error and the same board. On a board built by
  \<open>NewBoard\<close> and changed through the operations, the board after the call is exactly
  the board before it.
\<close>

theorem Board_Set_invalid:
  "(r < 0 \<or> r > 8 \<or> c < 0 \<or> c > 8 \<longrightarrow>
      Board_Set r c v b = (Some (InvalidPosition r c), b))
   \<and> (0 \<le> r \<and> r \<le> 8 \<and> 0 \<le> c \<and> c \<le> 8 \<and> (v < 0 \<or> v > 9) \<longrightarrow>
      Board_Set r c v b =
        (Some InvalidValue,
         case board b (r * 9 + c) of
           None \<Rightarrow> b\<lparr>board := (board b)(r * 9 + c \<mapsto> NewCell r c)\<rparr>
         | Some cell \<Rightarrow> b))
   \<and> (r < 0 \<or> r > 8 \<or> c < 0 \<or> c > 8 \<or> v < 0 \<or> v > 9 \<longrightarrow>
      fst (Board_Set r c v b) \<noteq> None
      \<and> calls (snd (Board_Set r c v b)) = calls b
      \<and> constraints (snd (Board_Set r c v b)) = constraints b
      \<and> observers (snd (Board_Set r c v b)) = observers b
      \<and> (\<forall>j cell. board b j = Some cell \<longrightarrow> board (snd (Board_Set r c v b)) j = Some cell)
      \<and> Board_Set r c v (snd (Board_Set r c v b)) = Board_Set r c v b
      \<and> (reachable b \<longrightarrow> snd (Board_Set r c v b) = b))"
proof -
  have pos: "Board_Set r c v b = (Some (InvalidPosition r c), b)"
    if "r < 0 \<or> r > 8 \<or> c < 0 \<or> c > 8"
    using that by (simp add: Board_Set_def)
  have val: "Board_Set r c v b =
        (Some InvalidValue,
         case board b (r * 9 + c) of
           None \<Rightarrow> b\<lparr>board := (board b)(r * 9 + c \<mapsto> NewCell r c)\<rparr>
         | Some cell \<Rightarrow> b)"
    if "0 \<le> r \<and> r \<le> 8 \<and> 0 \<le> c \<and> c \<le> 8 \<and> (v < 0 \<or> v > 9)"
  proof (cases "board b (r * 9 + c)")
    case None
    with that show ?thesis
      by (auto simp: Board_Set_def Cell_SetValue_def run_cell_def)
  next
    case (Some cell)
    with that show ?thesis
      by (auto simp: Board_Set_def Cell_SetValue_def run_cell_same)
  qed
  have rest: "fst (Board_Set r c v b) \<noteq> None
      \<and> calls (snd (Board_Set r c v b)) = calls b
      \<and> constraints (snd (Board_Set r c v b)) = constraints b
      \<and> observers (snd (Board_Set r c v b)) = observers b
      \<and> (\<forall>j cell. board b j = Some cell \<longrightarrow> board (snd (Board_Set r c v b)) j = Some cell)
      \<and> Board_Set r c v (snd (Board_Set r c v b)) = Board_Set r c v b
      \<and> (reachable b \<longrightarrow> snd (Board_Set r c v b) = b)"
    if inv: "r < 0 \<or> r > 8 \<or> c < 0 \<or> c > 8 \<or> v < 0 \<or> v > 9"
  proof (cases "r < 0 \<or> r > 8 \<or> c < 0 \<or> c > 8")
    case True
    from pos [OF True] True show ?thesis by (simp add: Board_Set_def)
  next
    case False
    with inv have h: "0 \<le> r \<and> r \<le> 8 \<and> 0 \<le> c \<and> c \<le> 8 \<and> (v < 0 \<or> v > 9)" by auto
    note e = val [OF h]
    show ?thesis
    proof (cases "board b (r * 9 + c)")
      case None
      define b1 where "b1 = b\<lparr>board := (board b)(r * 9 + c \<mapsto> NewCell r c)\<rparr>"
      from e None have e1: "Board_Set r c v b = (Some InvalidValue, b1)" by (simp add: b1_def)
      have "board b1 (r * 9 + c) = Some (NewCell r c)" by (simp add: b1_def)
      then have e2: "Board_Set r c v b1 = (Some InvalidValue, b1)"
        using h by (auto simp: Board_Set_def Cell_SetValue_def run_cell_same)
      have "\<not> reachable b"
      proof
        assume "reachable b"
        then have "board_full b" by (rule reachable_full)
        moreover from h have "0 \<le> r * 9 + c \<and> r * 9 + c \<le> 80" by auto
        ultimately have "board b (r * 9 + c) \<noteq> None" unfolding board_full_def by blast
        with None show False by simp
      qed
      with e1 e2 None show ?thesis by (auto simp: b1_def)
    next
      case (Some cell)
      with e have "Board_Set r c v b = (Some InvalidValue, b)" by simp
      then show ?thesis by simp
    qed
  qed
  from pos val rest show ?thesis by blast
qed

theorem Board_Set_invalid_witness:
  "Board_Set 9 0 5 NewBoard = (Some (InvalidPosition 9 0), NewBoard)
   \<and> Board_Set 0 0 10 NewBoard = (Some InvalidValue, NewBoard)
   \<and> Board_Set 0 0 10 (snd (Board_Set 0 0 10 NewBoard)) = (Some InvalidValue, NewBoard)
   \<and> reachable NewBoard
   \<and> Board_Set 0 0 10 zero_Board
       = (Some InvalidValue, zero_Board\<lparr>board := (board zero_Board)(0 \<mapsto> NewCell 0 0)\<rparr>)
   \<and> calls (snd (Board_Set 0 0 10 zero_Board)) = calls zero_Board
   \<and> Board_Set 0 0 10 (snd (Board_Set 0 0 10 zero_Board)) = Board_Set 0 0 10 zero_Board"
proof -
  have n: "board NewBoard (0 * 9 + 0) = Some (NewCell 0 0)" by (simp add: NewBoard_def)
  have z: "board zero_Board (0 * 9 + 0) = None" by (simp add: zero_Board_def)
  have r: "reachable NewBoard" by (rule reachable.intros(1))
  have 1: "Board_Set 9 0 5 NewBoard = (Some (InvalidPosition 9 0), NewBoard)"
    using Board_Set_invalid [of 9 0 5 NewBoard] by simp
  have 2: "Board_Set 0 0 10 NewBoard = (Some InvalidValue, NewBoard)"
    using Board_Set_invalid [of 0 0 10 NewBoard] n by simp
  have 3: "Board_Set 0 0 10 zero_Board
       = (Some InvalidValue, zero_Board\<lparr>board := (board zero_Board)(0 \<mapsto> NewCell 0 0)\<rparr>)"
    using Board_Set_invalid [of 0 0 10 zero_Board] z by simp
  have inv: "(0::int) < 0 \<or> (0::int) > 8 \<or> (0::int) < 0 \<or> (0::int) > 8
      \<or> (10::int) < 0 \<or> (10::int) > 9" by simp
  note rest = Board_Set_invalid [of 0 0 10 zero_Board, THEN conjunct2, THEN conjunct2,
      THEN mp, OF inv]
  have 4: "calls (snd (Board_Set 0 0 10 zero_Board)) = calls zero_Board"
    using rest by blast
  have 5: "Board_Set 0 0 10 (snd (Board_Set 0 0 10 zero_Board)) = Board_Set 0 0 10 zero_Board"
    using rest by blast
  from 1 2 r 3 4 5 show ?thesis by simp
qed

subsection \<open>Termination\<close>

lemma NewBoard_ok: "board_ok NewBoard"
  by (auto simp: board_ok_def NewBoard_def NewCell_def)

lemma Board_Set_calls:
  "calls (snd (Board_Set r c v b)) =
     calls b @
       (if 0 \<le> r \<and> r \<le> 8 \<and> 0 \<le> c \<and> c \<le> 8 \<and> 1 \<le> v \<and> v \<le> 9 then
          case board b (r * 9 + c) of
            None \<Rightarrow> []
          | Some cell \<Rightarrow> map (\<lambda>obs. (obs, CellSolved (row cell) (col cell) v)) (notifier cell)
        else [])"
  by (auto simp: Board_Set_def Let_def run_cell_eq Cell_SetValue_def NewCell_def
      split: option.splits)

lemma RemoveCandidate_at_calls:
  "length (calls (RemoveCandidate_at i d b))
     \<le> length (calls b) + 2 * (case board b i of None \<Rightarrow> 0 | Some cell \<Rightarrow> length (notifier cell))"
  by (auto simp: RemoveCandidate_at_def run_cell_eq Cell_RemoveCandidate_def Let_def
      split: option.splits list.splits)

lemma until_stable_three:
  assumes "fst (Board_ApplyPencilMarkConstraints b)"
    and "fst (Board_ApplyPencilMarkConstraints (snd (Board_ApplyPencilMarkConstraints b)))"
    and "\<not> fst (Board_ApplyPencilMarkConstraints
           (snd (Board_ApplyPencilMarkConstraints (snd (Board_ApplyPencilMarkConstraints b)))))"
  shows "map_option fst (until_stable 0 b) = Some 3"
proof -
  let ?b1 = "snd (Board_ApplyPencilMarkConstraints b)"
  let ?b2 = "snd (Board_ApplyPencilMarkConstraints ?b1)"
  have "until_stable 0 b = until_stable 1 ?b1"
    using assms(1) by (subst until_stable.simps) (simp add: Let_def)
  also have "\<dots> = until_stable 2 ?b2"
    using assms(2) by (subst until_stable.simps) (simp add: Let_def)
  also have "\<dots> = Some (3, snd (Board_ApplyPencilMarkConstraints ?b2))"
    using assms(3) by (subst until_stable.simps) (simp add: Let_def)
  finally show ?thesis by simp
qed

lemma unstable_row_three:
  "map_option fst (Board_ApplyPencilMarkConstraintsUntilStable unstable_row) = Some 3"
proof -
  have 1: "fst (Board_ApplyPencilMarkConstraints unstable_row)" by code_simp
  have 2: "fst (Board_ApplyPencilMarkConstraints
             (snd (Board_ApplyPencilMarkConstraints unstable_row)))" by code_simp
  have 3: "\<not> fst (Board_ApplyPencilMarkConstraints
           (snd (Board_ApplyPencilMarkConstraints
             (snd (Board_ApplyPencilMarkConstraints unstable_row)))))" by code_simp
  show ?thesis
    unfolding Board_ApplyPencilMarkConstraintsUntilStable_def
    by (rule until_stable_three [OF 1 2 3])
qed

text \<open>
  C9. Every callback of the repository returns without calling back into the board
  (\<open>handle_id\<close>), so the chain that a \<open>Set\<close> or a \<open>RemoveCandidate\<close> starts is one round
  of observer calls: \<open>Set\<close> with a digit 1..9 calls each observer of the cell once, with
  \<open>CellSolved\<close>, and otherwise none; \<open>RemoveCandidate\<close> calls each observer of the cell
  at most twice. A \<open>RemoveCandidate\<close> and the propagation method of any constraint
  type (a chain of \<open>RemoveCandidate\<close> calls over the scope) leave the board as it was or
  strictly shrunk: only candidates were removed, and an unsolved cell lost one. Whenever
  a board has strictly shrunk, the total number of candidates has strictly decreased
  (on the boards of the Go types: cells in the 81 slots, finite candidate maps).
  \<open>ApplyPencilMarkConstraintsUntilStable\<close> returns on every board, with an iteration
  count of at least 1, and with no constraint registered it returns 1 and the board
  untouched.
\<close>

theorem propagation_terminates:
  "(\<exists>n b'. Board_ApplyPencilMarkConstraintsUntilStable b = Some (n, b') \<and> 1 \<le> n)
   \<and> (constraints b = [] \<longrightarrow> Board_ApplyPencilMarkConstraintsUntilStable b = Some (1, b))
   \<and> (RemoveCandidate_at i d b = b \<or> strictly_shrinks b (RemoveCandidate_at i d b))
   \<and> (Constraint_PropagateValueChange k r c v b = b
        \<or> strictly_shrinks b (Constraint_PropagateValueChange k r c v b))
   \<and> calls (snd (Board_Set r c v b)) =
        calls b @
          (if 0 \<le> r \<and> r \<le> 8 \<and> 0 \<le> c \<and> c \<le> 8 \<and> 1 \<le> v \<and> v \<le> 9 then
             case board b (r * 9 + c) of
               None \<Rightarrow> []
             | Some cell \<Rightarrow> map (\<lambda>obs. (obs, CellSolved (row cell) (col cell) v)) (notifier cell)
           else [])
   \<and> length (calls (RemoveCandidate_at i d b))
        \<le> length (calls b) + 2 * (case board b i of None \<Rightarrow> 0 | Some cell \<Rightarrow> length (notifier cell))
   \<and> (\<forall>b'. board_ok b \<and> strictly_shrinks b b' \<longrightarrow>
          board_ok b' \<and> total_candidates b' < total_candidates b)"
proof -
  have 1: "\<exists>n b'. Board_ApplyPencilMarkConstraintsUntilStable b = Some (n, b') \<and> 1 \<le> n"
    using until_stable_returns [of 0 b]
    by (auto simp: Board_ApplyPencilMarkConstraintsUntilStable_def)
  have 2: "Board_ApplyPencilMarkConstraintsUntilStable b = Some (1, b)" if "constraints b = []"
  proof -
    from that have "Board_ApplyPencilMarkConstraints b = (False, b)"
      by (simp add: Board_ApplyPencilMarkConstraints_def)
    then show ?thesis
      unfolding Board_ApplyPencilMarkConstraintsUntilStable_def
      by (subst until_stable.simps) (simp add: Let_def)
  qed
  have 3: "RemoveCandidate_at i d b = b \<or> strictly_shrinks b (RemoveCandidate_at i d b)"
    by (rule RemoveCandidate_at_cases)
  have 4: "Constraint_PropagateValueChange k r c v b = b
        \<or> strictly_shrinks b (Constraint_PropagateValueChange k r c v b)"
    using Constraint_PropagateValueChange_steps [of b k r c v] by (simp add: steps_def)
  have 5: "board_ok b' \<and> total_candidates b' < total_candidates b"
    if "board_ok b \<and> strictly_shrinks b b'" for b'
    using that strictly_shrinks_total [of b b'] shrinks_board_ok [of b b']
    by (simp add: strictly_shrinks_def)
  from 1 2 3 4 5 Board_Set_calls [of r c v b] RemoveCandidate_at_calls [of i d b]
  show ?thesis by blast
qed

theorem propagation_terminates_witness:
  "Board_ApplyPencilMarkConstraintsUntilStable NewBoard = Some (1, NewBoard)
   \<and> (\<exists>b'. Board_ApplyPencilMarkConstraintsUntilStable unstable_row = Some (3, b'))
   \<and> board_ok NewBoard
   \<and> strictly_shrinks NewBoard
        (Constraint_PropagateValueChange (row0\<lparr>Board_assigned := True\<rparr>) 0 0 1 NewBoard)
   \<and> total_candidates
        (Constraint_PropagateValueChange (row0\<lparr>Board_assigned := True\<rparr>) 0 0 1 NewBoard)
        < total_candidates NewBoard
   \<and> total_candidates (RemoveCandidate_at 0 5 NewBoard) < total_candidates NewBoard"
proof -
  let ?k = "row0\<lparr>Board_assigned := True\<rparr>"
  let ?p = "Constraint_PropagateValueChange ?k 0 0 1 NewBoard"
  have c: "constraints NewBoard = []" by (simp add: NewBoard_def)
  have 1: "Board_ApplyPencilMarkConstraintsUntilStable NewBoard = Some (1, NewBoard)"
    using propagation_terminates [of NewBoard] c by blast
  have 2: "\<exists>b'. Board_ApplyPencilMarkConstraintsUntilStable unstable_row = Some (3, b')"
    using propagation_terminates [of unstable_row] unstable_row_three by auto
  have "cell_candidates ?p 1 \<noteq> cell_candidates NewBoard 1" by code_simp
  then have ne: "?p \<noteq> NewBoard" by (rule contrapos_nn) (erule arg_cong)
  have "cell_candidates (RemoveCandidate_at 0 5 NewBoard) 0 \<noteq> cell_candidates NewBoard 0"
    by code_simp
  then have ne': "RemoveCandidate_at 0 5 NewBoard \<noteq> NewBoard"
    by (rule contrapos_nn) (erule arg_cong)
  note T = propagation_terminates [of NewBoard 0 5 ?k 0 0 1]
  from T ne have 3: "strictly_shrinks NewBoard ?p" by blast
  from T ne' have 4: "strictly_shrinks NewBoard (RemoveCandidate_at 0 5 NewBoard)" by blast
  from T have m: "\<forall>b'. board_ok NewBoard \<and> strictly_shrinks NewBoard b' \<longrightarrow>
          board_ok b' \<and> total_candidates b' < total_candidates NewBoard" by blast
  from m 3 NewBoard_ok have 5: "total_candidates ?p < total_candidates NewBoard" by blast
  from m 4 NewBoard_ok
  have 6: "total_candidates (RemoveCandidate_at 0 5 NewBoard) < total_candidates NewBoard"
    by blast
  from 1 2 NewBoard_ok 3 5 6 show ?thesis by blast
qed

end
